theory Spec2Isabelle
  imports Main
begin

section \<open>The regular expressions of the scanner\<close>

text \<open>
  \<open>Plugin._parse_lines\<close> compiles three regular expressions and uses their \<open>match\<close>
  method (anchored at the start of the line). Each of the three is a sequence of
  single-character items, an item being a character class with a quantifier (exactly
  once, \<open>*\<close> or \<open>+\<close>), followed by a closing \<open>$\<close>. A pattern is modelled as the list of
  its items and matched by a backtracking matcher with Python's priorities: a \<open>*\<close> or \<open>+\<close>
  first tries the longest run and gives characters back one at a time.
  The matcher returns the text consumed by every item, from which the groups are read.
\<close>

datatype cclass = Lit char | AnyChar | Digit

fun in_class :: "cclass \<Rightarrow> char \<Rightarrow> bool" where
  "in_class (Lit a) c = (c = a)"
| "in_class AnyChar c = (c \<noteq> CHR 0x0A)"
| "in_class Digit c = (c \<in> set ''0123456789'')"

datatype quant = Once | Star | Plus

type_synonym item = "cclass \<times> quant"

text \<open>
  The empty item list is the final \<open>$\<close>: without the MULTILINE flag it matches at the end
  of the string and just before a newline that ends the string.
\<close>

fun rmatch :: "item list \<Rightarrow> string \<Rightarrow> string list option" where
  "rmatch [] s = (if s = [] \<or> s = [CHR 0x0A] then Some [] else None)"
| "rmatch ((cl, Once) # its) [] = None"
| "rmatch ((cl, Once) # its) (c # cs) =
     (if in_class cl c then map_option (Cons [c]) (rmatch its cs) else None)"
| "rmatch ((cl, Star) # its) [] = map_option (Cons []) (rmatch its [])"
| "rmatch ((cl, Star) # its) (c # cs) =
     (if in_class cl c then
        (case rmatch ((cl, Star) # its) cs of
           Some (seg # segs) \<Rightarrow> Some ((c # seg) # segs)
         | _ \<Rightarrow> map_option (Cons []) (rmatch its (c # cs)))
      else map_option (Cons []) (rmatch its (c # cs)))"
| "rmatch ((cl, Plus) # its) [] = None"
| "rmatch ((cl, Plus) # its) (c # cs) =
     (if in_class cl c then
        (case rmatch ((cl, Star) # its) cs of
           Some (seg # segs) \<Rightarrow> Some ((c # seg) # segs)
         | _ \<Rightarrow> None)
      else None)"

text \<open>\<^verbatim>\<open>r' */[*] +"(.*)":([0-9]+)$'\<close>: group 1 is item 5, group 2 is item 8.\<close>

definition source_path_rx :: "item list" where
  "source_path_rx =
     [(Lit CHR '' '', Star), (Lit CHR ''/'', Once), (Lit CHR ''*'', Once),
      (Lit CHR '' '', Plus), (Lit CHR 0x22, Once), (AnyChar, Star), (Lit CHR 0x22, Once),
      (Lit CHR '':'', Once), (Digit, Plus)]"

definition match_source_path_line :: "string \<Rightarrow> (string \<times> string) option" where
  "match_source_path_line line =
     (case rmatch source_path_rx line of
        None \<Rightarrow> None
      | Some segs \<Rightarrow> Some (segs ! 5, segs ! 8))"

text \<open>\<^verbatim>\<open>r' *[*] (.*) # <<<<<<+$'\<close>: group 1 is item 3.\<close>

definition current_code_rx :: "item list" where
  "current_code_rx =
     [(Lit CHR '' '', Star), (Lit CHR ''*'', Once), (Lit CHR '' '', Once), (AnyChar, Star),
      (Lit CHR '' '', Once), (Lit CHR ''#'', Once), (Lit CHR '' '', Once),
      (Lit CHR ''<'', Once), (Lit CHR ''<'', Once), (Lit CHR ''<'', Once),
      (Lit CHR ''<'', Once), (Lit CHR ''<'', Once), (Lit CHR ''<'', Plus)]"

definition match_current_code_line :: "string \<Rightarrow> string option" where
  "match_current_code_line line =
     (case rmatch current_code_rx line of
        None \<Rightarrow> None
      | Some segs \<Rightarrow> Some (segs ! 3))"

text \<open>\<^verbatim>\<open>r' *[*]/$'\<close>; only the truth value of the match is used.\<close>

definition comment_end_rx :: "item list" where
  "comment_end_rx = [(Lit CHR '' '', Star), (Lit CHR ''*'', Once), (Lit CHR ''/'', Once)]"

definition match_comment_end :: "string \<Rightarrow> bool" where
  "match_comment_end line = (rmatch comment_end_rx line \<noteq> None)"

section \<open>Strings, lines and paths\<close>

text \<open>
  \<open>int(lineno)\<close> on a string of decimal digits. Python integers are unbounded and the
  result is never negative, so line numbers are natural numbers.
\<close>

definition digit_val :: "char \<Rightarrow> nat" where
  "digit_val c = of_char c - 48"

definition int_of_digits :: "string \<Rightarrow> nat" where
  "int_of_digits ds = foldl (\<lambda>a c. 10 * a + digit_val c) 0 ds"

text \<open>\<open>str.rstrip()\<close>: removes trailing whitespace (space, tab, LF, VT, FF, CR).\<close>

definition is_space :: "char \<Rightarrow> bool" where
  "is_space c = (c \<in> set [CHR '' '', CHR 0x09, CHR 0x0A, CHR 0x0B, CHR 0x0C, CHR 0x0D])"

definition rstrip :: "string \<Rightarrow> string" where
  "rstrip s = rev (dropWhile is_space (rev s))"

text \<open>\<open>str.lower()\<close> on a byte string: the letters A to Z are mapped to a to z.\<close>

definition lower_char :: "char \<Rightarrow> char" where
  "lower_char c = (let n = (of_char c :: nat) in if 65 \<le> n \<and> n \<le> 90 then char_of (n + 32) else c)"

definition lower :: "string \<Rightarrow> string" where
  "lower s = map lower_char s"

text \<open>\<open>s.endswith(suf)\<close> and \<open>sub in s\<close>.\<close>

definition endswith :: "string \<Rightarrow> string \<Rightarrow> bool" where
  "endswith s suf = (drop (length s - length suf) s = suf)"

fun contains :: "string \<Rightarrow> string \<Rightarrow> bool" where
  "contains sub [] = (sub = [])"
| "contains sub (c # cs) = (take (length sub) (c # cs) = sub \<or> contains sub cs)"

text \<open>
  Iterating over a file opened in text mode yields its lines, each with the newline
  that ends it; the last line has none when the text does not end in a newline.
\<close>

fun file_lines :: "string \<Rightarrow> string list" where
  "file_lines [] = []"
| "file_lines (c # cs) =
     (if c = CHR 0x0A then [c] # file_lines cs
      else (case file_lines cs of [] \<Rightarrow> [[c]] | l # ls \<Rightarrow> (c # l) # ls))"

text \<open>
  \<open>os.path.splitext\<close> of the POSIX path module: the extension starts at the last dot of
  the last path component, unless only dots come before it in that component.
\<close>

definition splitext :: "string \<Rightarrow> string \<times> string" where
  "splitext p =
     (let base = rev (takeWhile (\<lambda>c. c \<noteq> CHR ''/'') (rev p));
          dir = rev (dropWhile (\<lambda>c. c \<noteq> CHR ''/'') (rev p))
      in if CHR ''.'' \<in> set base then
           (let ext = rev (takeWhile (\<lambda>c. c \<noteq> CHR ''.'') (rev base));
                stem = rev (tl (dropWhile (\<lambda>c. c \<noteq> CHR ''.'') (rev base)))
            in if \<exists>c\<in>set stem. c \<noteq> CHR ''.'' then (dir @ stem, CHR ''.'' # ext) else (p, []))
         else (p, []))"

section \<open>The scan of a generated C file\<close>

text \<open>
  The local variables of \<open>_parse_lines\<close>: \<open>code_lines\<close> is a \<open>defaultdict(dict)\<close>,
  \<open>max_line\<close> a \<open>defaultdict(int)\<close> and \<open>filenames\<close> a set, kept here as the list of its
  elements in the order of their first insertion.
\<close>

record scan_state =
  code_lines :: "string \<rightharpoonup> (nat \<rightharpoonup> string)"
  max_line :: "string \<rightharpoonup> nat"
  filenames :: "string list"

definition scan_init :: scan_state where
  "scan_init = \<lparr>code_lines = Map.empty, max_line = Map.empty, filenames = []\<rparr>"

text \<open>Reading key \<open>k\<close> of a \<open>defaultdict\<close> with default \<open>d\<close>.\<close>

definition dd_get :: "('k \<rightharpoonup> 'v) \<Rightarrow> 'v \<Rightarrow> 'k \<Rightarrow> 'v" where
  "dd_get m d k = (case m k of None \<Rightarrow> d | Some v \<Rightarrow> v)"

definition set_add :: "'a \<Rightarrow> 'a list \<Rightarrow> 'a list" where
  "set_add x xs = (if x \<in> set xs then xs else xs @ [x])"

text \<open>
  The two nested \<open>for\<close> loops share one iterator over the lines: \<open>outer_loop\<close> is the loop
  of line 104, \<open>inner_loop\<close> the loop of line 112 for the header just matched. When the
  inner loop exhausts the iterator, the outer loop ends as well.
\<close>

fun outer_loop :: "string list \<Rightarrow> scan_state \<Rightarrow> scan_state"
  and inner_loop :: "string \<Rightarrow> nat \<Rightarrow> string list \<Rightarrow> scan_state \<Rightarrow> scan_state" where
  "outer_loop [] st = st"
| "outer_loop (line # lines) st =
     (case match_source_path_line line of
        None \<Rightarrow> outer_loop lines st
      | Some (filename, lineno_s) \<Rightarrow>
          (let lineno = int_of_digits lineno_s
           in inner_loop filename lineno lines
                (st\<lparr>filenames := set_add filename (filenames st),
                    max_line := (max_line st)(filename \<mapsto>
                                   max (dd_get (max_line st) 0 filename) lineno)\<rparr>)))"
| "inner_loop filename lineno [] st = st"
| "inner_loop filename lineno (comment_line # lines) st =
     (case match_current_code_line comment_line of
        Some g \<Rightarrow>
          outer_loop lines
            (st\<lparr>code_lines := (code_lines st)(filename \<mapsto>
                   (dd_get (code_lines st) Map.empty filename)(lineno \<mapsto> rstrip g))\<rparr>)
      | None \<Rightarrow>
          if match_comment_end comment_line then outer_loop lines st
          else inner_loop filename lineno lines st)"

text \<open>
  Lines 121 to 124: \<open>excluded_lines\<close> is a plain dictionary with one key for every key
  of \<open>code_lines\<close>.
\<close>

definition excluded_lines :: "scan_state \<Rightarrow> (string \<rightharpoonup> nat set)" where
  "excluded_lines st =
     (\<lambda>filename. case code_lines st filename of
        None \<Rightarrow> None
      | Some lines \<Rightarrow> Some (set [1 ..< dd_get (max_line st) 0 filename + 1] - dom lines))"

section \<open>The plugin and its registry\<close>

text \<open>
  What the plugin reads from its surroundings: \<open>os.path.abspath\<close> (which depends on the
  working directory), \<open>os.path.exists\<close>, the contents of the files that can be opened
  (\<open>None\<close> where \<open>open\<close> raises \<open>IOError\<close>), and the order in which a \<open>for\<close> loop visits
  the elements of a set, which Python leaves unspecified.
\<close>

record env =
  abspath :: "string \<Rightarrow> string"
  path_exists :: "string \<Rightarrow> bool"
  file_contents :: "string \<rightharpoonup> string"
  set_iter :: "string list \<Rightarrow> string list"

datatype error = KeyError string | IOError string | AssertionError

text \<open>
  An entry of \<open>_c_files_map\<close> is the tuple \<open>(c_file, rel_file_path, code, excluded)\<close>; the
  last two components are \<open>None\<close> in the entries that the tracer inserts.
  The attribute \<open>_c_files_map\<close> itself is \<open>None\<close> until the first parse. The tracers hold a
  reference to the same dictionary, so the one field stands for all of them.
\<close>

type_synonym entry = "string \<times> string \<times> (nat \<rightharpoonup> string) option \<times> nat set option"

record plugin =
  c_files_map :: "(string \<rightharpoonup> entry) option"

definition plugin_init :: plugin where
  "plugin_init = \<lparr>c_files_map = None\<rparr>"

text \<open>
  Lines 129 to 131, over the file names in the order of the iteration. Reading
  \<open>excluded_lines[filename]\<close> raises \<open>KeyError\<close> for a missing key; the assignments
  made before that stay in the dictionary.
\<close>

fun commit :: "env \<Rightarrow> string \<Rightarrow> scan_state \<Rightarrow> (string \<rightharpoonup> nat set) \<Rightarrow> string list \<Rightarrow>
    (string \<rightharpoonup> entry) \<Rightarrow> error option \<times> (string \<rightharpoonup> entry)" where
  "commit env c_file st excl [] m = (None, m)"
| "commit env c_file st excl (filename # rest) m =
     (case excl filename of
        None \<Rightarrow> (Some (KeyError filename), m)
      | Some ex \<Rightarrow>
          commit env c_file st excl rest
            (m(abspath env filename \<mapsto>
                 (c_file, filename, Some (dd_get (code_lines st) Map.empty filename), Some ex))))"

text \<open>
  \<open>_parse_lines\<close>. The result is \<open>None\<close> for the pair \<open>(None, None)\<close> of line 134 and
  otherwise the last three components of the entry of \<open>sourcefile\<close>.
\<close>

definition parse_lines :: "env \<Rightarrow> string \<Rightarrow> string \<Rightarrow> plugin \<Rightarrow>
    (error + (string \<times> (nat \<rightharpoonup> string) option \<times> nat set option) option) \<times> plugin" where
  "parse_lines env c_file sourcefile self =
     (case file_contents env c_file of
        None \<Rightarrow> (Inl (IOError c_file), self)
      | Some text \<Rightarrow>
          (let st = outer_loop (file_lines text) scan_init;
               excl = excluded_lines st;
               m0 = (case c_files_map self of None \<Rightarrow> Map.empty | Some m \<Rightarrow> m)
           in case commit env c_file st excl (set_iter env (filenames st)) m0 of
                (Some e, m1) \<Rightarrow> (Inl e, self\<lparr>c_files_map := Some m1\<rparr>)
              | (None, m1) \<Rightarrow>
                  (Inr (case m1 sourcefile of
                          None \<Rightarrow> None
                        | Some (c, rel, code, ex) \<Rightarrow> Some (rel, code, ex)),
                   self\<lparr>c_files_map := Some m1\<rparr>)))"

text \<open>
  \<open>_find_source_files\<close>. Besides its result the model returns the paths handed to
  \<open>os.path.exists\<close>, in the order of the calls.
\<close>

definition find_source_files :: "env \<Rightarrow> string \<Rightarrow> (string option \<times> string option) \<times> string list" where
  "find_source_files env filename =
     (let (basename, ext) = splitext filename
      in if lower ext \<notin> set [''.so'', ''.dll'', ''.c'', ''.cpp''] then ((None, None), [])
         else
           (let (c_file, probes) =
                  (if path_exists env (basename @ ''.c'')
                   then (Some (basename @ ''.c''), [basename @ ''.c''])
                   else if path_exists env (basename @ ''.cpp'')
                   then (Some (basename @ ''.cpp''), [basename @ ''.c'', basename @ ''.cpp''])
                   else (None, [basename @ ''.c'', basename @ ''.cpp'']))
            in case c_file of
                 None \<Rightarrow> ((None, None), probes)
               | Some c \<Rightarrow>
                   (let py_source_file = fst (splitext c) @ ''.py''
                    in ((Some c, if path_exists env py_source_file then Some py_source_file else None),
                        probes @ [py_source_file]))))"

text \<open>
  Lines 31 to 37 of \<open>file_tracer\<close>: the C file comes from the registry when the
  (absolute) file name is a key of it, and from \<open>_find_source_files\<close> otherwise.
\<close>

definition candidate_c_file :: "env \<Rightarrow> string \<Rightarrow> plugin \<Rightarrow> string option \<times> string option" where
  "candidate_c_file env filename self =
     (case (case c_files_map self of
              None \<Rightarrow> None
            | Some m \<Rightarrow> (if m \<noteq> Map.empty then map_option fst (m filename) else None)) of
        Some c \<Rightarrow> (Some c, None)
      | None \<Rightarrow> fst (find_source_files env filename))"

record tracer =
  module_file :: string
  py_file :: "string option"
  c_file_of :: string

definition generator_marker :: string where
  "generator_marker = ''/* Generated by Cython ''"

text \<open>
  \<open>file_tracer\<close>. \<open>not c_file\<close> holds for \<open>None\<close> and for the empty string. An exception
  raised by \<open>_parse_lines\<close> is not caught.
\<close>

definition file_tracer :: "env \<Rightarrow> string \<Rightarrow> plugin \<Rightarrow> (error + tracer option) \<times> plugin" where
  "file_tracer env filename0 self =
     (let filename = abspath env filename0;
          (c_file, py) = candidate_c_file env filename self
      in case c_file of
           None \<Rightarrow> (Inr None, self)
         | Some c \<Rightarrow>
             if c = [] then (Inr None, self)
             else
               (case file_contents env c of
                  None \<Rightarrow> (Inr None, self)
                | Some bytes \<Rightarrow>
                    if \<not> contains generator_marker (take 30 bytes) then (Inr None, self)
                    else
                      (case parse_lines env c filename self of
                         (Inl e, self') \<Rightarrow> (Inl e, self')
                       | (Inr r, self') \<Rightarrow>
                           (Inr (Some \<lparr>module_file = filename, py_file = py, c_file_of = c\<rparr>),
                            self'))))"

text \<open>
  \<open>CythonModuleTracer.dynamic_source_filename\<close>, for the file name of the frame's code
  object. The tracer's \<open>_c_files_map\<close> is the plugin's dictionary; the assertion of line
  160 fails when there is none.
\<close>

definition dynamic_source_filename :: "env \<Rightarrow> tracer \<Rightarrow> string \<Rightarrow> plugin \<Rightarrow> (error + string) \<times> plugin" where
  "dynamic_source_filename env tr source_file self =
     (let abs_path = abspath env source_file;
          otherwise =
            (case c_files_map self of
               None \<Rightarrow> (Inl AssertionError, self)
             | Some m \<Rightarrow>
                 (Inr abs_path,
                  self\<lparr>c_files_map := Some
                    (if abs_path \<notin> dom m
                     then m(abs_path \<mapsto> (c_file_of tr, source_file, None, None))
                     else m)\<rparr>))
      in case py_file tr of
           None \<Rightarrow> otherwise
         | Some py \<Rightarrow>
             if py \<noteq> [] \<and> endswith (lower source_file) ''.py'' then (Inr py, self)
             else otherwise)"

record reporter =
  r_c_file :: string
  r_source_file :: string
  r_name :: string
  r_code :: "nat \<rightharpoonup> string"
  r_excluded :: "nat set option"

text \<open>\<open>file_reporter\<close>.\<close>

definition file_reporter :: "env \<Rightarrow> string \<Rightarrow> plugin \<Rightarrow> reporter option" where
  "file_reporter env filename0 self =
     (if lower (snd (splitext filename0)) \<notin> set [''.pyx'', ''.pxi'', ''.pxd''] then None
      else
        (let filename = abspath env filename0
         in case c_files_map self of
              None \<Rightarrow> None
            | Some m \<Rightarrow>
                if m = Map.empty \<or> filename \<notin> dom m then None
                else
                  (case m filename of
                     None \<Rightarrow> None
                   | Some (c_file, rel_file_path, code, excluded) \<Rightarrow>
                       (case code of
                          None \<Rightarrow> None
                        | Some cd \<Rightarrow>
                            Some \<lparr>r_c_file = c_file, r_source_file = filename,
                                  r_name = rel_file_path, r_code = cd, r_excluded = excluded\<rparr>))))"

text \<open>\<open>CythonModuleReporter.statements\<close> and \<open>excluded_statements\<close>.\<close>

definition statements :: "reporter \<Rightarrow> nat set" where
  "statements r = dom (r_code r)"

definition excluded_statements :: "reporter \<Rightarrow> nat set option" where
  "excluded_statements r = r_excluded r"

section \<open>Notions used to state the properties\<close>

text \<open>The entry of the registry under a key, if the registry exists and has one.\<close>

definition registry_lookup :: "plugin \<Rightarrow> string \<Rightarrow> entry option" where
  "registry_lookup self key = (case c_files_map self of None \<Rightarrow> None | Some m \<Rightarrow> m key)"

text \<open>The code text that the scan holds for a file and a line number.\<close>

definition code_at :: "scan_state \<Rightarrow> string \<Rightarrow> nat \<Rightarrow> string option" where
  "code_at st filename lineno =
     (case code_lines st filename of None \<Rightarrow> None | Some lines \<Rightarrow> lines lineno)"

text \<open>
  What the two loops do to the lines they read, as a trace: \<open>Cited f n\<close> when the outer
  loop matches a header for file \<open>f\<close> and line \<open>n\<close> (lines 108 to 111), \<open>Captured f n t\<close>
  when the inner loop stores the text \<open>t\<close> for them (line 115).
\<close>

datatype event = Cited string nat | Captured string nat string

fun outer_events :: "string list \<Rightarrow> event list"
  and inner_events :: "string \<Rightarrow> nat \<Rightarrow> string list \<Rightarrow> event list" where
  "outer_events [] = []"
| "outer_events (line # lines) =
     (case match_source_path_line line of
        None \<Rightarrow> outer_events lines
      | Some (filename, lineno_s) \<Rightarrow>
          Cited filename (int_of_digits lineno_s)
            # inner_events filename (int_of_digits lineno_s) lines)"
| "inner_events filename lineno [] = []"
| "inner_events filename lineno (comment_line # lines) =
     (case match_current_code_line comment_line of
        Some g \<Rightarrow> Captured filename lineno (rstrip g) # outer_events lines
      | None \<Rightarrow>
          if match_comment_end comment_line then outer_events lines
          else inner_events filename lineno lines)"

text \<open>The text of the last capture for a file and a line number in a trace.\<close>

fun last_capture :: "event list \<Rightarrow> string \<Rightarrow> nat \<Rightarrow> string option" where
  "last_capture [] f n = None"
| "last_capture (Cited g m # es) f n = last_capture es f n"
| "last_capture (Captured g m t # es) f n =
     (case last_capture es f n of
        Some t' \<Rightarrow> Some t'
      | None \<Rightarrow> if g = f \<and> m = n then Some t else None)"

text \<open>The highest line number cited for a file in a trace, 0 when there is none.\<close>

fun highest_cited :: "event list \<Rightarrow> string \<Rightarrow> nat" where
  "highest_cited [] f = 0"
| "highest_cited (Cited g m # es) f =
     (if g = f then max m (highest_cited es f) else highest_cited es f)"
| "highest_cited (Captured g m t # es) f = highest_cited es f"

text \<open>
  The header whose inner loop is still looking for its code text when the given lines
  have been read; \<open>None\<close> when the next line is read by the outer loop.
\<close>

fun outer_pending :: "string list \<Rightarrow> (string \<times> nat) option"
  and inner_pending :: "string \<Rightarrow> nat \<Rightarrow> string list \<Rightarrow> (string \<times> nat) option" where
  "outer_pending [] = None"
| "outer_pending (line # lines) =
     (case match_source_path_line line of
        None \<Rightarrow> outer_pending lines
      | Some (filename, lineno_s) \<Rightarrow> inner_pending filename (int_of_digits lineno_s) lines)"
| "inner_pending filename lineno [] = Some (filename, lineno)"
| "inner_pending filename lineno (comment_line # lines) =
     (case match_current_code_line comment_line of
        Some g \<Rightarrow> outer_pending lines
      | None \<Rightarrow>
          if match_comment_end comment_line then outer_pending lines
          else inner_pending filename lineno lines)"

text \<open>What an item of a pattern can consume.\<close>

fun seg_ok :: "item \<Rightarrow> string \<Rightarrow> bool" where
  "seg_ok (cl, Once) seg = (\<exists>c. seg = [c] \<and> in_class cl c)"
| "seg_ok (cl, Star) seg = (\<forall>c\<in>set seg. in_class cl c)"
| "seg_ok (cl, Plus) seg = (seg \<noteq> [] \<and> (\<forall>c\<in>set seg. in_class cl c))"

text \<open>
  The invariant of the scan: every file with code lines and every file with a highest
  line is among the file names, and no captured line lies above the highest line cited.
\<close>

definition scan_inv :: "scan_state \<Rightarrow> bool" where
  "scan_inv st \<longleftrightarrow>
     dom (code_lines st) \<subseteq> set (filenames st) \<and>
     dom (max_line st) = set (filenames st) \<and>
     (\<forall>f d n. code_lines st f = Some d \<longrightarrow> d n \<noteq> None \<longrightarrow> n \<le> dd_get (max_line st) 0 f)"

text \<open>The scan of a whole text, from the empty tables.\<close>

definition scan_text :: "string \<Rightarrow> scan_state" where
  "scan_text text = outer_loop (file_lines text) scan_init"

section \<open>Concrete surroundings and artifacts\<close>

text \<open>
  A file system given by the contents of its files, with the working directory \<open>/w\<close>;
  sets are visited in the order of insertion.
\<close>

definition ex_env :: "(string \<rightharpoonup> string) \<Rightarrow> env" where
  "ex_env files =
     \<lparr>abspath = (\<lambda>p. if take 1 p = ''/'' then p else ''/w/'' @ p),
      path_exists = (\<lambda>p. files p \<noteq> None),
      file_contents = files,
      set_iter = (\<lambda>xs. xs)\<rparr>"

text \<open>One header followed at once by its code-text line.\<close>

definition art_roundtrip :: string where
  \<open>art_roundtrip =
     ''/* Generated by Cython 0.22 */\<newline>/* "foo.pyx":10\<newline> * x = 1 # <<<<<<<<\<newline>''\<close>

text \<open>Lines 1 and 3 of one file are cited; the block of line 3 ends without a marked line.\<close>

definition art_exclusion :: string where
  \<open>art_exclusion =
     ''/* Generated by Cython 0.22 */\<newline>/* "m.pyx":1\<newline> * a = 0 # <<<<<<\<newline> */\<newline>/* "m.pyx":3\<newline> * b\<newline> */\<newline>''\<close>

text \<open>A header that cites line 0.\<close>

definition art_line_zero :: string where
  \<open>art_line_zero =
     ''/* Generated by Cython 0.22 */\<newline>/* "a.pyx":0\<newline> * x # <<<<<<\<newline>''\<close>

text \<open>A file that is cited once, in a block that ends without a marked line.\<close>

definition art_no_code :: string where
  \<open>art_no_code =
     ''/* Generated by Cython 0.22 */\<newline>/* "a.pyx":3\<newline> */\<newline>''\<close>

text \<open>A text that ends right after a header.\<close>

definition art_truncated :: string where
  \<open>art_truncated =
     ''/* Generated by Cython 0.22 */\<newline>/* "a.pyx":3\<newline>''\<close>

text \<open>The same file and line cited twice, with different code texts.\<close>

definition art_duplicate :: string where
  \<open>art_duplicate =
     ''/* Generated by Cython 0.22 */\<newline>/* "foo.pyx":10\<newline> * x = 1 # <<<<<<<<\<newline>/* "foo.pyx":10\<newline> * y = 2 # <<<<<<\<newline>''\<close>



text \<open>
  Two names of one file: \<open>a.pyx\<close> is cited at line 5 and \<open>./a.pyx\<close> at line 2. The
  surroundings below resolve a leading \<open>./\<close> as \<open>os.path.abspath\<close> does, so both names
  have the absolute path \<open>/w/a.pyx\<close>.
\<close>

definition art_alias :: string where
  \<open>art_alias =
     ''/* Generated by Cython 0.22 */\<newline>/* "a.pyx":5\<newline> * x = 1 # <<<<<<\<newline>/* "./a.pyx":2\<newline> * y = 2 # <<<<<<\<newline>''\<close>

definition alias_env :: env where
  "alias_env =
     \<lparr>abspath = (\<lambda>p. if take 1 p = ''/'' then p
                       else if take 2 p = ''./'' then ''/w/'' @ drop 2 p
                       else ''/w/'' @ p),
      path_exists = (\<lambda>p. p = ''/w/m.c''),
      file_contents = [''/w/m.c'' \<mapsto> art_alias],
      set_iter = (\<lambda>xs. xs)\<rparr>"

text \<open>The tracer that \<open>file_tracer\<close> returns for \<open>m.so\<close> when \<open>/w/m.c\<close> is a generated file.\<close>

definition ex_tracer :: tracer where
  "ex_tracer = \<lparr>module_file = ''/w/m.so'', py_file = None, c_file_of = ''/w/m.c''\<rparr>"

section \<open>The matcher consumes what the pattern describes\<close>

lemma rmatch_sound:
  "rmatch its s = Some segs \<Longrightarrow>
     list_all2 seg_ok its segs \<and> (s = concat segs \<or> s = concat segs @ [CHR 0x0A])"
proof (induction its s arbitrary: segs rule: rmatch.induct)
  case (1 s)
  then show ?case by (auto split: if_splits)
next
  case (2 cl its)
  then show ?case by simp
next
  case (3 cl its c cs)
  then show ?case by (auto split: if_splits)
next
  case (4 cl its)
  then show ?case by auto
next
  case (5 cl its c cs)
  show ?case
  proof (cases "in_class cl c")
    case False
    with 5 show ?thesis by auto
  next
    case True
    show ?thesis
    proof (cases "rmatch ((cl, Star) # its) cs")
      case None
      with 5 True show ?thesis by auto
    next
      case (Some r)
      show ?thesis
      proof (cases r)
        case Nil
        with 5 True Some show ?thesis by auto
      next
        case (Cons seg segs')
        with "5.IH"(1)[OF True Some] "5.prems" True Some show ?thesis by auto
      qed
    qed
  qed
next
  case (6 cl its)
  then show ?case by simp
next
  case (7 cl its c cs)
  show ?case
  proof (cases "in_class cl c")
    case False
    with 7 show ?thesis by auto
  next
    case True
    show ?thesis
    proof (cases "rmatch ((cl, Star) # its) cs")
      case None
      with 7 True show ?thesis by auto
    next
      case (Some r)
      show ?thesis
      proof (cases r)
        case Nil
        with 7 True Some show ?thesis by auto
      next
        case (Cons seg segs')
        with "7.IH"(1)[OF True Some] "7.prems" True Some show ?thesis by auto
      qed
    qed
  qed
qed

lemma seg_lit_once: "seg_ok (Lit a, Once) seg \<Longrightarrow> seg = [a]"
  by auto

lemma seg_lit_star: "seg_ok (Lit a, Star) seg \<Longrightarrow> seg = replicate (length seg) a"
  by (induction seg) auto

lemma seg_lit_plus: "seg_ok (Lit a, Plus) seg \<Longrightarrow> seg = replicate (length seg) a \<and> 1 \<le> length seg"
  by (cases seg) (auto intro: replicate_eqI)

lemma current_code_shape:
  assumes "match_current_code_line line = Some g"
  shows "\<exists>a k. 6 \<le> k \<and>
     (line = replicate a CHR '' '' @ ''* '' @ g @ '' # '' @ replicate k CHR ''<'' \<or>
      line = replicate a CHR '' '' @ ''* '' @ g @ '' # '' @ replicate k CHR ''<'' @ [CHR 0x0A])"
proof -
  from assms obtain segs where m: "rmatch current_code_rx line = Some segs" and g: "g = segs ! 3"
    by (auto simp: match_current_code_line_def split: option.splits)
  from rmatch_sound[OF m] have la: "list_all2 seg_ok current_code_rx segs"
    and cat: "line = concat segs \<or> line = concat segs @ [CHR 0x0A]" by auto
  from la obtain s0 s1 s2 s3 s4 s5 s6 s7 s8 s9 s10 s11 s12 where
    segs: "segs = [s0, s1, s2, s3, s4, s5, s6, s7, s8, s9, s10, s11, s12]"
    and ok: "seg_ok (Lit CHR '' '', Star) s0" "seg_ok (Lit CHR ''*'', Once) s1"
      "seg_ok (Lit CHR '' '', Once) s2" "seg_ok (Lit CHR '' '', Once) s4"
      "seg_ok (Lit CHR ''#'', Once) s5" "seg_ok (Lit CHR '' '', Once) s6"
      "seg_ok (Lit CHR ''<'', Once) s7" "seg_ok (Lit CHR ''<'', Once) s8"
      "seg_ok (Lit CHR ''<'', Once) s9" "seg_ok (Lit CHR ''<'', Once) s10"
      "seg_ok (Lit CHR ''<'', Once) s11" "seg_ok (Lit CHR ''<'', Plus) s12"
    unfolding current_code_rx_def by (auto simp: list_all2_Cons1)
  have e: "s1 = ''*''" "s2 = '' ''" "s4 = '' ''" "s5 = ''#''" "s6 = '' ''"
    "s7 = ''<''" "s8 = ''<''" "s9 = ''<''" "s10 = ''<''" "s11 = ''<''"
    using ok by (auto dest: seg_lit_once)
  have s0: "s0 = replicate (length s0) CHR '' ''" using ok(1) by (rule seg_lit_star)
  have s12: "s12 = replicate (length s12) CHR ''<''" "1 \<le> length s12"
    using seg_lit_plus[OF ok(12)] by auto
  have "concat segs = replicate (length s0) CHR '' '' @ ''* '' @ g @ '' # '' @ replicate (5 + length s12) CHR ''<''"
  proof -
    have "replicate (5 + length s12) CHR ''<'' = ''<<<<<'' @ s12"
      using s12(1) by (simp add: numeral_eq_Suc)
    then show ?thesis unfolding segs g using e s0 by simp
  qed
  moreover have "6 \<le> 5 + length s12" using s12(2) by simp
  ultimately show ?thesis using cat by (metis append_assoc)
qed

section \<open>The invariant of the scan\<close>

lemma set_add_set [simp]: "set (set_add x xs) = insert x (set xs)"
  by (auto simp: set_add_def)

lemma scan_inv_loops:
  "scan_inv st \<longrightarrow> scan_inv (outer_loop ls st)"
  "scan_inv st' \<and> f \<in> set (filenames st') \<and> n \<le> dd_get (max_line st') 0 f
      \<longrightarrow> scan_inv (inner_loop f n ls' st')"
proof (induction ls st and f n ls' st' rule: outer_loop_inner_loop.induct)
  case (1 st)
  then show ?case by simp
next
  case (2 line lines st)
  show ?case
  proof (cases "match_source_path_line line")
    case None
    with 2 show ?thesis by simp
  next
    case (Some fl)
    obtain filename ds where fl: "fl = (filename, ds)" by (cases fl)
    let ?st = "st\<lparr>filenames := set_add filename (filenames st),
                    max_line := (max_line st)(filename \<mapsto>
                                   max (dd_get (max_line st) 0 filename) (int_of_digits ds))\<rparr>"
    have "scan_inv st \<Longrightarrow> scan_inv ?st"
      unfolding scan_inv_def
    proof (intro conjI allI impI)
      assume a: "dom (code_lines st) \<subseteq> set (filenames st) \<and>
        dom (max_line st) = set (filenames st) \<and>
        (\<forall>f d n. code_lines st f = Some d \<longrightarrow> d n \<noteq> None \<longrightarrow> n \<le> dd_get (max_line st) 0 f)"
      show "dom (code_lines ?st) \<subseteq> set (filenames ?st)" using a by auto
      show "dom (max_line ?st) = set (filenames ?st)" using a by auto
      fix f d n assume "code_lines ?st f = Some d" "d n \<noteq> None"
      then have "n \<le> dd_get (max_line st) 0 f" using a by simp
      then show "n \<le> dd_get (max_line ?st) 0 f"
        by (auto simp: dd_get_def le_max_iff_disj)
    qed
    moreover have "filename \<in> set (filenames ?st)" by simp
    moreover have "int_of_digits ds \<le> dd_get (max_line ?st) 0 filename"
      by (simp add: dd_get_def)
    ultimately have "scan_inv st \<Longrightarrow> scan_inv (inner_loop filename (int_of_digits ds) lines ?st)"
      using "2.IH"(2)[OF Some fl[symmetric] refl] by blast
    then show ?thesis using Some fl by (simp add: Let_def)
  qed
next
  case (3 filename lineno st)
  then show ?case by simp
next
  case (4 filename lineno comment_line lines st)
  show ?case
  proof (cases "match_current_code_line comment_line")
    case None
    with 4 show ?thesis by simp
  next
    case (Some g)
    let ?st = "st\<lparr>code_lines := (code_lines st)(filename \<mapsto>
                   (dd_get (code_lines st) Map.empty filename)(lineno \<mapsto> rstrip g))\<rparr>"
    have "scan_inv ?st"
      if a: "scan_inv st" "filename \<in> set (filenames st)"
        "lineno \<le> dd_get (max_line st) 0 filename"
      unfolding scan_inv_def
    proof (intro conjI allI impI)
      show "dom (code_lines ?st) \<subseteq> set (filenames ?st)"
        using a by (auto simp: scan_inv_def)
      show "dom (max_line ?st) = set (filenames ?st)"
        using a by (simp add: scan_inv_def)
      fix f d n assume h: "code_lines ?st f = Some d" "d n \<noteq> None"
      have old: "\<And>d0. code_lines st f = Some d0 \<Longrightarrow> d0 n \<noteq> None \<Longrightarrow> n \<le> dd_get (max_line st) 0 f"
        using a(1) unfolding scan_inv_def by blast
      show "n \<le> dd_get (max_line ?st) 0 f"
      proof (cases "f = filename \<and> n = lineno")
        case True
        then show ?thesis using a(3) by simp
      next
        case False
        then have "\<exists>d0. code_lines st f = Some d0 \<and> d0 n \<noteq> None"
          using h by (auto simp: dd_get_def split: option.splits if_splits)
        then show ?thesis using old by auto
      qed
    qed
    then have "scan_inv st \<and> filename \<in> set (filenames st) \<and> lineno \<le> dd_get (max_line st) 0 filename
      \<Longrightarrow> scan_inv (outer_loop lines ?st)"
      using "4.IH"(3)[OF Some] by blast
    then show ?thesis using Some by simp
  qed
qed

lemma scan_inv_init: "scan_inv scan_init"
  by (simp add: scan_inv_def scan_init_def)

lemma scan_inv_scan: "scan_inv (outer_loop ls scan_init)"
  using scan_inv_loops(1) scan_inv_init by blast

section \<open>The commit loop\<close>

lemma commit_ok:
  "commit env c st excl fs m = (None, m') \<Longrightarrow>
     (\<forall>f\<in>set fs. excl f \<noteq> None) \<and>
     (\<forall>k. (k \<notin> abspath env ` set fs \<longrightarrow> m' k = m k) \<and>
          (k \<in> abspath env ` set fs \<longrightarrow>
             (\<exists>f\<in>set fs. abspath env f = k \<and>
                m' k = Some (c, f, Some (dd_get (code_lines st) Map.empty f), excl f))))"
proof (induction fs arbitrary: m)
  case Nil
  then show ?case by simp
next
  case (Cons f fs)
  from Cons.prems obtain ex where ex: "excl f = Some ex"
    by (auto split: option.splits)
  let ?m = "m(abspath env f \<mapsto> (c, f, Some (dd_get (code_lines st) Map.empty f), Some ex))"
  from Cons.prems ex have rest: "commit env c st excl fs ?m = (None, m')" by simp
  note ih = Cons.IH[OF rest]
  show ?case
  proof (intro conjI ballI allI impI)
    fix g assume "g \<in> set (f # fs)"
    then show "excl g \<noteq> None" using ih ex by auto
  next
    fix k assume "k \<notin> abspath env ` set (f # fs)"
    then show "m' k = m k" using ih by auto
  next
    fix k assume k: "k \<in> abspath env ` set (f # fs)"
    show "\<exists>g\<in>set (f # fs). abspath env g = k \<and>
        m' k = Some (c, g, Some (dd_get (code_lines st) Map.empty g), excl g)"
    proof (cases "k \<in> abspath env ` set fs")
      case True
      then show ?thesis using ih by auto
    next
      case False
      then have "m' k = ?m k" using ih by blast
      moreover from k False have "abspath env f = k" by auto
      ultimately show ?thesis using ex by auto
    qed
  qed
qed

lemma commit_KeyError:
  "f \<in> set fs \<Longrightarrow> excl f = None \<Longrightarrow>
     \<exists>g m'. g \<in> set fs \<and> excl g = None \<and> commit env c st excl fs m = (Some (KeyError g), m')"
proof (induction fs arbitrary: m)
  case Nil
  then show ?case by simp
next
  case (Cons a fs)
  show ?case
  proof (cases "excl a")
    case None
    then show ?thesis by auto
  next
    case (Some ex)
    with Cons.prems have "f \<in> set fs" by auto
    from Cons.IH[OF this Cons.prems(2), of "m(abspath env a \<mapsto> (c, a, Some (dd_get (code_lines st) Map.empty a), Some ex))"]
    obtain g m' where "g \<in> set fs" "excl g = None"
      "commit env c st excl fs (m(abspath env a \<mapsto> (c, a, Some (dd_get (code_lines st) Map.empty a), Some ex))) = (Some (KeyError g), m')"
      by blast
    with Some show ?thesis by auto
  qed
qed

lemma commit_total:
  "\<forall>f\<in>set fs. excl f \<noteq> None \<Longrightarrow> \<exists>m'. commit env c st excl fs m = (None, m')"
  by (induction fs arbitrary: m) auto

section \<open>The scan and its trace\<close>

lemma max_line_loops:
  "dd_get (max_line (outer_loop ls st)) 0 f =
     max (dd_get (max_line st) 0 f) (highest_cited (outer_events ls) f)"
  "dd_get (max_line (inner_loop g n ls' st')) 0 f =
     max (dd_get (max_line st') 0 f) (highest_cited (inner_events g n ls') f)"
proof (induction ls st and g n ls' st' rule: outer_loop_inner_loop.induct)
  case (1 st)
  then show ?case by simp
next
  case (2 line lines st)
  show ?case
  proof (cases "match_source_path_line line")
    case None
    with 2 show ?thesis by simp
  next
    case (Some fl)
    obtain filename ds where fl: "fl = (filename, ds)" by (cases fl)
    show ?thesis
      using "2.IH"(2)[OF Some fl[symmetric] refl] Some fl
      by (auto simp: Let_def dd_get_def split: option.splits)
  qed
next
  case (3 filename lineno st)
  then show ?case by simp
next
  case (4 filename lineno comment_line lines st)
  show ?case
  proof (cases "match_current_code_line comment_line")
    case None
    with 4 show ?thesis by simp
  next
    case (Some t)
    with "4.IH"(3)[OF Some] show ?thesis by simp
  qed
qed

lemma code_at_loops:
  "code_at (outer_loop ls st) f n =
     (case last_capture (outer_events ls) f n of Some t \<Rightarrow> Some t | None \<Rightarrow> code_at st f n)"
  "code_at (inner_loop g k ls' st') f n =
     (case last_capture (inner_events g k ls') f n of Some t \<Rightarrow> Some t | None \<Rightarrow> code_at st' f n)"
proof (induction ls st and g k ls' st' rule: outer_loop_inner_loop.induct)
  case (1 st)
  then show ?case by simp
next
  case (2 line lines st)
  show ?case
  proof (cases "match_source_path_line line")
    case None
    with 2 show ?thesis by simp
  next
    case (Some fl)
    obtain filename ds where fl: "fl = (filename, ds)" by (cases fl)
    show ?thesis
      using "2.IH"(2)[OF Some fl[symmetric] refl] Some fl
      by (simp add: Let_def code_at_def split: option.splits)
  qed
next
  case (3 filename lineno st)
  then show ?case by simp
next
  case (4 filename lineno comment_line lines st)
  show ?case
  proof (cases "match_current_code_line comment_line")
    case None
    with 4 show ?thesis by simp
  next
    case (Some t)
    with "4.IH"(3)[OF Some] show ?thesis
      by (auto simp: code_at_def dd_get_def split: option.splits)
  qed
qed

lemma filenames_loops:
  "set (filenames (outer_loop ls st)) = set (filenames st) \<union> {f. \<exists>n. Cited f n \<in> set (outer_events ls)}"
  "set (filenames (inner_loop g k ls' st')) = set (filenames st') \<union> {f. \<exists>n. Cited f n \<in> set (inner_events g k ls')}"
proof (induction ls st and g k ls' st' rule: outer_loop_inner_loop.induct)
  case (1 st)
  then show ?case by simp
next
  case (2 line lines st)
  show ?case
  proof (cases "match_source_path_line line")
    case None
    with 2 show ?thesis by simp
  next
    case (Some fl)
    obtain filename ds where fl: "fl = (filename, ds)" by (cases fl)
    show ?thesis
      using "2.IH"(2)[OF Some fl[symmetric] refl] Some fl
      by (auto simp: Let_def set_add_def)
  qed
next
  case (3 filename lineno st)
  then show ?case by simp
next
  case (4 filename lineno comment_line lines st)
  show ?case
  proof (cases "match_current_code_line comment_line")
    case None
    with 4 show ?thesis by simp
  next
    case (Some t)
    with "4.IH"(3)[OF Some] show ?thesis by simp
  qed
qed

lemma loops_append:
  "outer_loop (pre @ rest) st =
     (case outer_pending pre of
        None \<Rightarrow> outer_loop rest (outer_loop pre st)
      | Some (f, n) \<Rightarrow> inner_loop f n rest (outer_loop pre st))"
  "inner_loop g k (pre' @ rest) st' =
     (case inner_pending g k pre' of
        None \<Rightarrow> outer_loop rest (inner_loop g k pre' st')
      | Some (f, n) \<Rightarrow> inner_loop f n rest (inner_loop g k pre' st'))"
proof (induction pre st and g k pre' st' rule: outer_loop_inner_loop.induct)
  case (1 st)
  then show ?case by simp
next
  case (2 line lines st)
  show ?case
  proof (cases "match_source_path_line line")
    case None
    with 2 show ?thesis by (simp split: option.splits)
  next
    case (Some fl)
    obtain filename ds where fl: "fl = (filename, ds)" by (cases fl)
    show ?thesis
      using "2.IH"(2)[OF Some fl[symmetric] refl] Some fl
      by (simp add: Let_def split: option.splits)
  qed
next
  case (3 filename lineno st)
  then show ?case by simp
next
  case (4 filename lineno comment_line lines st)
  show ?case
  proof (cases "match_current_code_line comment_line")
    case None
    with 4 show ?thesis by (simp split: option.splits)
  next
    case (Some t)
    with "4.IH"(3)[OF Some] show ?thesis by (simp split: option.splits)
  qed
qed

lemma events_append:
  "outer_events (pre @ rest) =
     (case outer_pending pre of
        None \<Rightarrow> outer_events pre @ outer_events rest
      | Some (f, n) \<Rightarrow> outer_events pre @ inner_events f n rest)"
  "inner_events g k (pre' @ rest) =
     (case inner_pending g k pre' of
        None \<Rightarrow> inner_events g k pre' @ outer_events rest
      | Some (f, n) \<Rightarrow> inner_events g k pre' @ inner_events f n rest)"
proof (induction pre and g k pre' rule: outer_events_inner_events.induct)
  case 1
  then show ?case by simp
next
  case (2 line lines)
  show ?case
  proof (cases "match_source_path_line line")
    case None
    with 2 show ?thesis by (simp split: option.splits)
  next
    case (Some fl)
    obtain filename ds where fl: "fl = (filename, ds)" by (cases fl)
    show ?thesis
      using "2.IH"(2)[OF Some fl[symmetric]] Some fl
      by (simp split: option.splits)
  qed
next
  case (3 filename lineno)
  then show ?case by simp
next
  case (4 filename lineno comment_line lines)
  show ?case
  proof (cases "match_current_code_line comment_line")
    case None
    with 4 show ?thesis by (simp split: option.splits)
  next
    case (Some t)
    with "4.IH"(3)[OF Some] show ?thesis by (simp split: option.splits)
  qed
qed

section \<open>Substrings\<close>

lemma contains_iff: "contains sub s \<longleftrightarrow> (\<exists>pre post. s = pre @ sub @ post)"
proof (induction s)
  case Nil
  then show ?case by auto
next
  case (Cons c cs)
  have "take (length sub) (c # cs) = sub \<longleftrightarrow> (\<exists>post. c # cs = sub @ post)"
    by (metis append_eq_conv_conj append_take_drop_id)
  moreover have "(\<exists>pre post. c # cs = pre @ sub @ post) \<longleftrightarrow>
      (\<exists>post. c # cs = sub @ post) \<or> (\<exists>pre post. cs = pre @ sub @ post)"
  proof
    assume "\<exists>pre post. c # cs = pre @ sub @ post"
    then obtain pre post where e: "c # cs = pre @ sub @ post" by blast
    show "(\<exists>post. c # cs = sub @ post) \<or> (\<exists>pre post. cs = pre @ sub @ post)"
    proof (cases pre)
      case Nil
      with e show ?thesis by auto
    next
      case (Cons a pre')
      with e have "cs = pre' @ sub @ post" by simp
      then show ?thesis by blast
    qed
  next
    assume "(\<exists>post. c # cs = sub @ post) \<or> (\<exists>pre post. cs = pre @ sub @ post)"
    then show "\<exists>pre post. c # cs = pre @ sub @ post"
    proof
      assume "\<exists>post. c # cs = sub @ post"
      then show ?thesis by (metis append_Nil)
    next
      assume "\<exists>pre post. cs = pre @ sub @ post"
      then obtain pre post where "cs = pre @ sub @ post" by blast
      then have "c # cs = (c # pre) @ sub @ post" by simp
      then show ?thesis by blast
    qed
  qed
  ultimately show ?case using Cons.IH by simp
qed


section \<open>Evaluation of the model on concrete inputs\<close>

lemmas model_eval =
  file_tracer_def candidate_c_file_def find_source_files_def parse_lines_def file_reporter_def
  plugin_init_def scan_init_def scan_text_def excluded_lines_def ex_env_def generator_marker_def
  splitext_def lower_def lower_char_def
  match_source_path_line_def source_path_rx_def match_current_code_line_def current_code_rx_def
  match_comment_end_def comment_end_rx_def set_add_def dd_get_def int_of_digits_def digit_val_def
  rstrip_def is_space_def statements_def excluded_statements_def registry_lookup_def code_at_def

section \<open>Statements and excluded lines of a parsed file\<close>

lemma parse_lines_Inr:
  assumes "parse_lines env c_file sourcefile self = (Inr r, self')"
    and "file_contents env c_file = Some text"
  shows "\<exists>m'. commit env c_file (scan_text text) (excluded_lines (scan_text text))
            (set_iter env (filenames (scan_text text)))
            (case c_files_map self of None \<Rightarrow> Map.empty | Some m \<Rightarrow> m) = (None, m') \<and>
          self' = self\<lparr>c_files_map := Some m'\<rparr>"
  using assms
  by (auto simp: parse_lines_def scan_text_def Let_def split: prod.splits option.splits)

lemma excluded_lines_Some:
  assumes "excluded_lines st g = Some ex" and "scan_inv st"
  shows "\<exists>lines. code_lines st g = Some lines \<and> dd_get (code_lines st) Map.empty g = lines \<and>
           ex = {1 .. dd_get (max_line st) 0 g} - dom lines \<and>
           dom lines \<subseteq> {0 .. dd_get (max_line st) 0 g}"
proof -
  from assms(1) obtain lines where l: "code_lines st g = Some lines"
    and ex: "ex = set [1 ..< dd_get (max_line st) 0 g + 1] - dom lines"
    by (auto simp: excluded_lines_def split: option.splits)
  have "dom lines \<subseteq> {0 .. dd_get (max_line st) 0 g}"
    using assms(2) l unfolding scan_inv_def by auto
  moreover have "set [1 ..< dd_get (max_line st) 0 g + 1] = {1 .. dd_get (max_line st) 0 g}"
    by auto
  ultimately show ?thesis using l ex by (simp add: dd_get_def)
qed

lemma scan_text_highest:
  "dd_get (max_line (scan_text text)) 0 f = highest_cited (outer_events (file_lines text)) f"
  by (simp add: scan_text_def max_line_loops(1)) (simp add: scan_init_def dd_get_def)

text \<open>
  Claim C1, as amended. Let a parse return normally, let \<open>f\<close> be a file cited in the
  artifact, and let no other file cited in the artifact have the absolute path of \<open>f\<close>.
  Then any reporter obtained for that absolute path is the record of \<open>f\<close>, and with \<open>M\<close>
  the highest line number cited for \<open>f\<close>: its statements and its excluded lines are
  disjoint; their union contains every line from 1 to \<open>M\<close> and nothing above \<open>M\<close>; and
  the union is exactly the range from 1 to \<open>M\<close> when line 0 is not among the statements.
\<close>

theorem statements_excluded_partition:
  assumes "parse_lines env c_file sourcefile self = (Inr r, self')"
    and "file_contents env c_file = Some text"
    and "set (set_iter env (filenames (scan_text text))) = set (filenames (scan_text text))"
    and "f \<in> set (filenames (scan_text text))"
    and "\<forall>g\<in>set (filenames (scan_text text)). abspath env g = abspath env f \<longrightarrow> g = f"
    and "abspath env path = abspath env f"
    and "file_reporter env path self' = Some rep"
  shows "\<exists>ex. r_name rep = f \<and> excluded_statements rep = Some ex \<and>
           statements rep \<inter> ex = {} \<and>
           (statements rep \<union> ex) \<inter> {1 .. highest_cited (outer_events (file_lines text)) f}
             = {1 .. highest_cited (outer_events (file_lines text)) f} \<and>
           statements rep \<union> ex \<subseteq> {0 .. highest_cited (outer_events (file_lines text)) f} \<and>
           (0 \<notin> statements rep \<longrightarrow>
              statements rep \<union> ex = {1 .. highest_cited (outer_events (file_lines text)) f})"
proof -
  let ?st = "scan_text text"
  from parse_lines_Inr[OF assms(1,2)] obtain m' where
    c: "commit env c_file ?st (excluded_lines ?st) (set_iter env (filenames ?st))
          (case c_files_map self of None \<Rightarrow> Map.empty | Some m \<Rightarrow> m) = (None, m')"
    and s: "self' = self\<lparr>c_files_map := Some m'\<rparr>" by blast
  have inv: "scan_inv ?st" unfolding scan_text_def by (rule scan_inv_scan)
  from assms(3,4) have "abspath env f \<in> abspath env ` set (set_iter env (filenames ?st))" by simp
  with commit_ok[OF c] obtain g where g: "g \<in> set (set_iter env (filenames ?st))"
    "abspath env g = abspath env f"
    "m' (abspath env f) = Some (c_file, g, Some (dd_get (code_lines ?st) Map.empty g), excluded_lines ?st g)"
    by blast
  from g(1) assms(3) have "g \<in> set (filenames ?st)" by simp
  with assms(5) g(2) have gf: "g = f" by blast
  from commit_ok[OF c] g(1) obtain ex where ex: "excluded_lines ?st g = Some ex" by auto
  from excluded_lines_Some[OF ex inv] obtain lines where
    l: "code_lines ?st g = Some lines" "dd_get (code_lines ?st) Map.empty g = lines"
      "ex = {1 .. dd_get (max_line ?st) 0 g} - dom lines"
      "dom lines \<subseteq> {0 .. dd_get (max_line ?st) 0 g}" by blast
  from assms(7) s g(3) ex l(2) assms(6)
  have rep: "r_name rep = g" "r_code rep = lines" "r_excluded rep = Some ex"
    by (auto simp: file_reporter_def Let_def split: if_splits option.splits)
  let ?M = "highest_cited (outer_events (file_lines text)) f"
  have M: "dd_get (max_line ?st) 0 g = ?M" unfolding gf by (rule scan_text_highest)
  have st: "statements rep = dom lines" by (simp add: statements_def rep)
  have 1: "statements rep \<inter> ex = {}" using l(3) st by auto
  have 2: "(statements rep \<union> ex) \<inter> {1 .. ?M} = {1 .. ?M}" using l(3) st M by auto
  have 3: "statements rep \<union> ex \<subseteq> {0 .. ?M}" using l(3,4) st M by auto
  have 4: "0 \<notin> statements rep \<longrightarrow> statements rep \<union> ex = {1 .. ?M}"
  proof
    assume z: "0 \<notin> statements rep"
    have "dom lines \<subseteq> {1 .. ?M}"
    proof
      fix n assume n: "n \<in> dom lines"
      with z st have "n \<noteq> 0" by metis
      moreover from n l(4) M have "n \<le> ?M" by auto
      ultimately show "n \<in> {1 .. ?M}" by simp
    qed
    then show "statements rep \<union> ex = {1 .. ?M}" using l(3) st M by auto
  qed
  from rep(1) gf have "r_name rep = f" by simp
  with rep(3) 1 2 3 4 show ?thesis
    by (simp add: excluded_statements_def)
qed

text \<open>
  The theorem at the artifact that cites lines 1 and 3 of \<open>m.pyx\<close> and marks line 1 only:
  the statements are \<open>{1}\<close>, the excluded lines \<open>{2, 3}\<close> and the highest line cited is 3.
\<close>

theorem statements_excluded_partition_witness:
  "fst (parse_lines (ex_env [''/w/m.c'' \<mapsto> art_exclusion]) ''/w/m.c'' ''/w/m.so'' plugin_init) = Inr None \<and>
   filenames (scan_text art_exclusion) = [''m.pyx''] \<and>
   highest_cited (outer_events (file_lines art_exclusion)) ''m.pyx'' = 3 \<and>
   (\<exists>rep. file_reporter (ex_env [''/w/m.c'' \<mapsto> art_exclusion]) ''m.pyx''
            (snd (parse_lines (ex_env [''/w/m.c'' \<mapsto> art_exclusion]) ''/w/m.c'' ''/w/m.so'' plugin_init))
          = Some rep \<and>
      statements rep = {1} \<and> excluded_statements rep = Some {2, 3} \<and>
      (\<exists>ex. r_name rep = ''m.pyx'' \<and> excluded_statements rep = Some ex \<and>
           statements rep \<inter> ex = {} \<and>
           (statements rep \<union> ex) \<inter> {1 .. highest_cited (outer_events (file_lines art_exclusion)) ''m.pyx''}
             = {1 .. highest_cited (outer_events (file_lines art_exclusion)) ''m.pyx''} \<and>
           statements rep \<union> ex \<subseteq> {0 .. highest_cited (outer_events (file_lines art_exclusion)) ''m.pyx''} \<and>
           (0 \<notin> statements rep \<longrightarrow>
              statements rep \<union> ex = {1 .. highest_cited (outer_events (file_lines art_exclusion)) ''m.pyx''})))"
proof -
  let ?E = "ex_env [''/w/m.c'' \<mapsto> art_exclusion]"
  let ?P = "snd (parse_lines ?E ''/w/m.c'' ''/w/m.so'' plugin_init)"
  have r: "fst (parse_lines ?E ''/w/m.c'' ''/w/m.so'' plugin_init) = Inr None"
    by (simp add: model_eval art_exclusion_def)
  then have h1: "parse_lines ?E ''/w/m.c'' ''/w/m.so'' plugin_init = (Inr None, ?P)"
    by (simp add: prod_eq_iff)
  have h2: "file_contents ?E ''/w/m.c'' = Some art_exclusion" by (simp add: ex_env_def)
  have fs: "filenames (scan_text art_exclusion) = [''m.pyx'']"
    by (simp add: model_eval art_exclusion_def)
  have hc: "highest_cited (outer_events (file_lines art_exclusion)) ''m.pyx'' = 3"
    by (simp add: model_eval art_exclusion_def)
  have h3: "set (set_iter ?E (filenames (scan_text art_exclusion))) = set (filenames (scan_text art_exclusion))"
    by (simp add: ex_env_def)
  have h4: "''m.pyx'' \<in> set (filenames (scan_text art_exclusion))" by (simp add: fs)
  have h5: "\<forall>g\<in>set (filenames (scan_text art_exclusion)).
      abspath ?E g = abspath ?E ''m.pyx'' \<longrightarrow> g = ''m.pyx''"
    by (simp add: fs)
  have "map_option statements (file_reporter ?E ''m.pyx'' ?P) = Some {1}"
    by (simp add: model_eval art_exclusion_def)
  moreover have "map_option excluded_statements (file_reporter ?E ''m.pyx'' ?P) = Some (Some {2, 3})"
    by (simp add: model_eval art_exclusion_def) auto
  ultimately obtain rep where h7: "file_reporter ?E ''m.pyx'' ?P = Some rep"
    and v: "statements rep = {1}" "excluded_statements rep = Some {2, 3}"
    by auto
  from statements_excluded_partition[OF h1 h2 h3 h4 h5 refl h7] r fs hc h7 v show ?thesis by blast
qed

text \<open>
  A header may cite line 0, which lies below the range. For the artifact that cites
  and marks line 0 of \<open>a.pyx\<close> only, the statements are \<open>{0}\<close>, no line is excluded and
  the highest line cited is 0, so the union is not the (empty) range from 1 to 0.
\<close>

theorem line_zero_counterexample:
  "map_option statements
     (file_reporter (ex_env [''/w/m.c'' \<mapsto> art_line_zero]) ''a.pyx''
        (snd (file_tracer (ex_env [''/w/m.c'' \<mapsto> art_line_zero]) ''m.so'' plugin_init))) = Some {0} \<and>
   map_option excluded_statements
     (file_reporter (ex_env [''/w/m.c'' \<mapsto> art_line_zero]) ''a.pyx''
        (snd (file_tracer (ex_env [''/w/m.c'' \<mapsto> art_line_zero]) ''m.so'' plugin_init))) = Some (Some {}) \<and>
   highest_cited (outer_events (file_lines art_line_zero)) ''a.pyx'' = 0 \<and>
   {0} \<union> {} \<noteq> {1 .. (0::nat)}"
  by (simp add: model_eval art_line_zero_def)

text \<open>
  Claim C1 also fails where two cited names have one absolute path. For the artifact
  that cites line 5 of \<open>a.pyx\<close> and line 2 of \<open>./a.pyx\<close>, both with a marked line, the
  parse returns normally and the key \<open>/w/a.pyx\<close> ends with the record of \<open>./a.pyx\<close>, which
  is committed last. The reporter obtained for \<open>a.pyx\<close> has the statements \<open>{2}\<close> and the
  excluded lines \<open>{1}\<close>, while the highest line cited for \<open>a.pyx\<close> is 5: the union is not
  the range from 1 to 5.
\<close>

theorem aliased_names_counterexample:
  "fst (file_tracer alias_env ''m.so'' plugin_init) = Inr (Some ex_tracer) \<and>
   filenames (scan_text art_alias) = [''a.pyx'', ''./a.pyx''] \<and>
   abspath alias_env ''a.pyx'' = abspath alias_env ''./a.pyx'' \<and>
   map_option r_name
     (file_reporter alias_env ''a.pyx'' (snd (file_tracer alias_env ''m.so'' plugin_init)))
     = Some ''./a.pyx'' \<and>
   map_option statements
     (file_reporter alias_env ''a.pyx'' (snd (file_tracer alias_env ''m.so'' plugin_init)))
     = Some {2} \<and>
   map_option excluded_statements
     (file_reporter alias_env ''a.pyx'' (snd (file_tracer alias_env ''m.so'' plugin_init)))
     = Some (Some {1}) \<and>
   highest_cited (outer_events (file_lines art_alias)) ''a.pyx'' = 5 \<and>
   {2} \<union> {1} \<noteq> {1 .. (5::nat)}"
proof -
  have e: "{2} \<union> {1} \<noteq> {1 .. (5::nat)}"
  proof
    assume "{2} \<union> {1} = {1 .. (5::nat)}"
    then have "(5::nat) \<in> {2} \<union> {1}" by simp
    then show False by simp
  qed
  have x: "{Suc 0..<3} - {2} = {Suc 0}" by auto
  show ?thesis
    using e by (simp add: model_eval alias_env_def art_alias_def ex_tracer_def x)
qed

section \<open>Files that are not generated by Cython, or cannot be read\<close>

text \<open>
  Claim C7. When the candidate C file cannot be opened, or its first 30 bytes do not
  contain the generator marker, \<open>file_tracer\<close> returns \<open>None\<close> without an exception
  and leaves the registry as it was.
\<close>

theorem file_tracer_not_cython:
  assumes "fst (candidate_c_file env (abspath env filename) self) = Some c"
    and "file_contents env c = None \<or>
         (\<exists>bytes. file_contents env c = Some bytes \<and> \<not> contains generator_marker (take 30 bytes))"
  shows "file_tracer env filename self = (Inr None, self)"
  using assms by (auto simp: file_tracer_def Let_def split: prod.splits option.splits)

text \<open>
  The theorem at a C file without the marker, and at a registry entry whose C file
  does not exist.
\<close>

theorem file_tracer_not_cython_witness:
  "file_tracer (ex_env [''/w/m.c'' \<mapsto> ''/* not generated */'']) ''m.so'' plugin_init = (Inr None, plugin_init) \<and>
   file_tracer (ex_env Map.empty) ''m.c'' \<lparr>c_files_map = Some [''/w/m.c'' \<mapsto> (''/w/gone.c'', ''m.c'', None, None)]\<rparr>
     = (Inr None, \<lparr>c_files_map = Some [''/w/m.c'' \<mapsto> (''/w/gone.c'', ''m.c'', None, None)]\<rparr>)"
proof -
  have 1: "fst (candidate_c_file (ex_env [''/w/m.c'' \<mapsto> ''/* not generated */''])
                (abspath (ex_env [''/w/m.c'' \<mapsto> ''/* not generated */'']) ''m.so'') plugin_init) = Some ''/w/m.c''"
    by (simp add: candidate_c_file_def ex_env_def plugin_init_def find_source_files_def splitext_def
          lower_def lower_char_def)
  have 2: "\<exists>bytes. file_contents (ex_env [''/w/m.c'' \<mapsto> ''/* not generated */'']) ''/w/m.c'' = Some bytes \<and>
           \<not> contains generator_marker (take 30 bytes)"
    by (simp add: ex_env_def generator_marker_def)
  have 3: "fst (candidate_c_file (ex_env Map.empty) (abspath (ex_env Map.empty) ''m.c'')
             \<lparr>c_files_map = Some [''/w/m.c'' \<mapsto> (''/w/gone.c'', ''m.c'', None, None)]\<rparr>) = Some ''/w/gone.c''"
    by (simp add: candidate_c_file_def ex_env_def)
  have 4: "file_contents (ex_env Map.empty) ''/w/gone.c'' = None"
    by (simp add: ex_env_def)
  show ?thesis
    using file_tracer_not_cython[OF 1 disjI2, OF 2] file_tracer_not_cython[OF 3 disjI1, OF 4]
    by simp
qed

section \<open>The search for the C file\<close>

text \<open>
  Claim C8. The extension is compared in lower case, as the code does. When it is not
  one of \<open>.so\<close>, \<open>.dll\<close>, \<open>.c\<close>, \<open>.cpp\<close>, \<open>_find_source_files\<close> returns \<open>(None, None)\<close>
  without any call of \<open>os.path.exists\<close>. Otherwise the first path probed is the stem
  with \<open>.c\<close>; if it exists it is the C file and the stem with \<open>.cpp\<close> is never probed; if
  not, the second path probed is the stem with \<open>.cpp\<close>, which is the C file if it
  exists, and there is no C file and no further probe if it does not.
\<close>

theorem find_source_files_probes:
  assumes "splitext filename = (stem, ext)"
  shows "(lower ext \<notin> set [''.so'', ''.dll'', ''.c'', ''.cpp''] \<longrightarrow>
            find_source_files env filename = ((None, None), [])) \<and>
         (lower ext \<in> set [''.so'', ''.dll'', ''.c'', ''.cpp''] \<longrightarrow>
            take 1 (snd (find_source_files env filename)) = [stem @ ''.c''] \<and>
            (path_exists env (stem @ ''.c'') \<longrightarrow>
               fst (fst (find_source_files env filename)) = Some (stem @ ''.c'') \<and>
               stem @ ''.cpp'' \<notin> set (snd (find_source_files env filename))) \<and>
            (\<not> path_exists env (stem @ ''.c'') \<longrightarrow>
               take 2 (snd (find_source_files env filename)) = [stem @ ''.c'', stem @ ''.cpp''] \<and>
               (path_exists env (stem @ ''.cpp'') \<longrightarrow>
                  fst (fst (find_source_files env filename)) = Some (stem @ ''.cpp'')) \<and>
               (\<not> path_exists env (stem @ ''.cpp'') \<longrightarrow>
                  find_source_files env filename = ((None, None), [stem @ ''.c'', stem @ ''.cpp'']))))"
proof -
  have "stem @ ''.cpp'' \<noteq> p @ ''.py''" for p
  proof
    assume "stem @ ''.cpp'' = p @ ''.py''"
    then have "last (stem @ ''.cpp'') = last (p @ ''.py'')" by simp
    then show False by simp
  qed
  then show ?thesis using assms by (auto simp: find_source_files_def Let_def)
qed

text \<open>
  The theorem at \<open>notes.txt\<close>, and at \<open>m.so\<close> where only \<open>m.cpp\<close> exists and where both
  \<open>m.c\<close> and \<open>m.cpp\<close> exist.
\<close>

theorem find_source_files_probes_witness:
  "find_source_files (ex_env [''/w/m.cpp'' \<mapsto> art_roundtrip]) ''/w/notes.txt'' = ((None, None), []) \<and>
   take 2 (snd (find_source_files (ex_env [''/w/m.cpp'' \<mapsto> art_roundtrip]) ''/w/m.so''))
     = [''/w/m.c'', ''/w/m.cpp''] \<and>
   fst (fst (find_source_files (ex_env [''/w/m.cpp'' \<mapsto> art_roundtrip]) ''/w/m.so'')) = Some ''/w/m.cpp'' \<and>
   fst (fst (find_source_files (ex_env [''/w/m.c'' \<mapsto> art_roundtrip, ''/w/m.cpp'' \<mapsto> art_roundtrip]) ''/w/m.so''))
     = Some ''/w/m.c'' \<and>
   snd (find_source_files (ex_env [''/w/m.c'' \<mapsto> art_roundtrip, ''/w/m.cpp'' \<mapsto> art_roundtrip]) ''/w/m.so'')
     = [''/w/m.c'', ''/w/m.py'']"
proof -
  have t: "splitext ''/w/notes.txt'' = (''/w/notes'', ''.txt'')" by (simp add: splitext_def)
  have s: "splitext ''/w/m.so'' = (''/w/m'', ''.so'')" by (simp add: splitext_def)
  have 5: "snd (find_source_files (ex_env [''/w/m.c'' \<mapsto> art_roundtrip, ''/w/m.cpp'' \<mapsto> art_roundtrip]) ''/w/m.so'')
     = [''/w/m.c'', ''/w/m.py'']"
    by (simp add: find_source_files_def splitext_def lower_def lower_char_def ex_env_def)
  have 1: "find_source_files (ex_env [''/w/m.cpp'' \<mapsto> art_roundtrip]) ''/w/notes.txt'' = ((None, None), [])"
    using find_source_files_probes[OF t, of "ex_env [''/w/m.cpp'' \<mapsto> art_roundtrip]"]
    by (simp add: lower_def lower_char_def)
  have 2: "take 2 (snd (find_source_files (ex_env [''/w/m.cpp'' \<mapsto> art_roundtrip]) ''/w/m.so''))
       = [''/w/m.c'', ''/w/m.cpp''] \<and>
     fst (fst (find_source_files (ex_env [''/w/m.cpp'' \<mapsto> art_roundtrip]) ''/w/m.so'')) = Some ''/w/m.cpp''"
    using find_source_files_probes[OF s, of "ex_env [''/w/m.cpp'' \<mapsto> art_roundtrip]"]
    by (simp add: lower_def lower_char_def ex_env_def)
  have 4: "fst (fst (find_source_files (ex_env [''/w/m.c'' \<mapsto> art_roundtrip, ''/w/m.cpp'' \<mapsto> art_roundtrip]) ''/w/m.so''))
     = Some ''/w/m.c''"
    using find_source_files_probes[OF s, of "ex_env [''/w/m.c'' \<mapsto> art_roundtrip, ''/w/m.cpp'' \<mapsto> art_roundtrip]"]
    by (simp add: lower_def lower_char_def ex_env_def)
  from 1 2 4 5 show ?thesis by blast
qed

section \<open>Reporters exist for full entries only\<close>

text \<open>
  Claim C9. \<open>file_reporter\<close> returns a reporter only for a path whose extension is, in
  lower case, one of \<open>.pyx\<close>, \<open>.pxi\<close>, \<open>.pxd\<close> and whose absolute path has an entry with
  code lines in the registry. When the registry has no entry for the absolute path, or
  an entry without code lines, \<open>file_reporter\<close> returns \<open>None\<close>.
\<close>

theorem file_reporter_unknown:
  "(file_reporter env path self = Some rep \<longrightarrow>
      lower (snd (splitext path)) \<in> set [''.pyx'', ''.pxi'', ''.pxd''] \<and>
      (\<exists>c rel code ex. registry_lookup self (abspath env path) = Some (c, rel, Some code, ex))) \<and>
   (registry_lookup self (abspath env path) = None \<or>
    (\<exists>c rel ex. registry_lookup self (abspath env path) = Some (c, rel, None, ex))
      \<longrightarrow> file_reporter env path self = None)"
  by (auto simp: file_reporter_def registry_lookup_def Let_def split: option.splits if_splits)

text \<open>
  The theorem after a parse of the artifact for \<open>foo.pyx\<close>: a reporter for \<open>foo.pyx\<close>,
  none for a file the registry does not know, and none for \<open>inc.pxi\<close>, for which the
  tracer has inserted an entry without code lines.
\<close>

theorem file_reporter_unknown_witness:
  "fst (file_tracer (ex_env [''/w/m.c'' \<mapsto> art_roundtrip]) ''m.so'' plugin_init) = Inr (Some ex_tracer) \<and>
   registry_lookup
     (snd (dynamic_source_filename (ex_env [''/w/m.c'' \<mapsto> art_roundtrip]) ex_tracer ''inc.pxi''
        (snd (file_tracer (ex_env [''/w/m.c'' \<mapsto> art_roundtrip]) ''m.so'' plugin_init))))
     ''/w/inc.pxi'' = Some (''/w/m.c'', ''inc.pxi'', None, None) \<and>
   file_reporter (ex_env [''/w/m.c'' \<mapsto> art_roundtrip]) ''inc.pxi''
     (snd (dynamic_source_filename (ex_env [''/w/m.c'' \<mapsto> art_roundtrip]) ex_tracer ''inc.pxi''
        (snd (file_tracer (ex_env [''/w/m.c'' \<mapsto> art_roundtrip]) ''m.so'' plugin_init)))) = None \<and>
   file_reporter (ex_env [''/w/m.c'' \<mapsto> art_roundtrip]) ''gone.pyx''
     (snd (file_tracer (ex_env [''/w/m.c'' \<mapsto> art_roundtrip]) ''m.so'' plugin_init)) = None \<and>
   map_option r_name (file_reporter (ex_env [''/w/m.c'' \<mapsto> art_roundtrip]) ''foo.pyx''
     (snd (file_tracer (ex_env [''/w/m.c'' \<mapsto> art_roundtrip]) ''m.so'' plugin_init))) = Some ''foo.pyx'' \<and>
   (\<exists>c rel code ex. registry_lookup (snd (file_tracer (ex_env [''/w/m.c'' \<mapsto> art_roundtrip]) ''m.so'' plugin_init))
      (abspath (ex_env [''/w/m.c'' \<mapsto> art_roundtrip]) ''foo.pyx'') = Some (c, rel, Some code, ex))"
proof -
  let ?E = "ex_env [''/w/m.c'' \<mapsto> art_roundtrip]"
  let ?P1 = "snd (file_tracer ?E ''m.so'' plugin_init)"
  let ?P2 = "snd (dynamic_source_filename ?E ex_tracer ''inc.pxi'' ?P1)"
  have t: "fst (file_tracer ?E ''m.so'' plugin_init) = Inr (Some ex_tracer)"
    by (simp add: model_eval art_roundtrip_def ex_tracer_def)
  have p: "registry_lookup ?P2 ''/w/inc.pxi'' = Some (''/w/m.c'', ''inc.pxi'', None, None)"
    by (simp add: model_eval art_roundtrip_def ex_tracer_def dynamic_source_filename_def Let_def)
  have a: "abspath ?E ''inc.pxi'' = ''/w/inc.pxi''" by (simp add: ex_env_def)
  have n: "registry_lookup ?P1 (abspath ?E ''gone.pyx'') = None"
    by (simp add: model_eval art_roundtrip_def)
  have f: "map_option r_name (file_reporter ?E ''foo.pyx'' ?P1) = Some ''foo.pyx''"
    by (simp add: model_eval art_roundtrip_def)
  then obtain rep where rep: "file_reporter ?E ''foo.pyx'' ?P1 = Some rep" by auto
  from file_reporter_unknown[of ?E "''inc.pxi''" ?P2] p a
  have 1: "file_reporter ?E ''inc.pxi'' ?P2 = None" by simp
  from file_reporter_unknown[of ?E "''gone.pyx''" ?P1] n
  have 2: "file_reporter ?E ''gone.pyx'' ?P1 = None" by simp
  from file_reporter_unknown[of ?E "''foo.pyx''" ?P1 rep] rep
  have 3: "\<exists>c rel code ex. registry_lookup ?P1 (abspath ?E ''foo.pyx'') = Some (c, rel, Some code, ex)"
    by blast
  from t p 1 2 f 3 show ?thesis by blast
qed

section \<open>What a code-text line looks like\<close>

lemma dropWhile_replicate_same:
  "dropWhile (\<lambda>c. c = a) (replicate n a @ xs) = dropWhile (\<lambda>c. c = a) xs"
  by (induction n) auto

lemma trailing_run_unique:
  assumes "xs @ replicate j a = ys @ replicate k a"
    and "xs = [] \<or> last xs \<noteq> a" and "ys = [] \<or> last ys \<noteq> a"
  shows "xs = ys"
proof -
  have r: "dropWhile (\<lambda>c. c = a) (rev zs) = rev zs" if "zs = [] \<or> last zs \<noteq> a" for zs
    using that by (cases zs rule: rev_cases) auto
  from assms(1) have "rev (xs @ replicate j a) = rev (ys @ replicate k a)" by simp
  then have "replicate j a @ rev xs = replicate k a @ rev ys" by simp
  then have "dropWhile (\<lambda>c. c = a) (replicate j a @ rev xs)
      = dropWhile (\<lambda>c. c = a) (replicate k a @ rev ys)" by simp
  then have "rev xs = rev ys"
    using r[OF assms(2)] r[OF assms(3)] by (simp add: dropWhile_replicate_same)
  then show ?thesis by simp
qed

lemma same_content:
  assumes "line = X \<or> line = X @ [CHR 0x0A]" and "line = Y \<or> line = Y @ [CHR 0x0A]"
    and "X \<noteq> []" and "last X \<noteq> CHR 0x0A" and "Y \<noteq> []" and "last Y \<noteq> CHR 0x0A"
  shows "X = Y"
  using assms by (elim disjE) auto

lemma comment_end_shape:
  assumes "match_comment_end line"
  shows "\<exists>a. line = replicate a CHR '' '' @ ''*/'' \<or> line = replicate a CHR '' '' @ ''*/'' @ [CHR 0x0A]"
proof -
  from assms obtain segs where m: "rmatch comment_end_rx line = Some segs"
    by (auto simp: match_comment_end_def)
  from rmatch_sound[OF m] have la: "list_all2 seg_ok comment_end_rx segs"
    and cat: "line = concat segs \<or> line = concat segs @ [CHR 0x0A]" by auto
  from la obtain s0 s1 s2 where segs: "segs = [s0, s1, s2]"
    and ok: "seg_ok (Lit CHR '' '', Star) s0" "seg_ok (Lit CHR ''*'', Once) s1"
      "seg_ok (Lit CHR ''/'', Once) s2"
    unfolding comment_end_rx_def by (auto simp: list_all2_Cons1)
  have "s1 = ''*''" "s2 = ''/''" using ok by (auto dest: seg_lit_once)
  moreover have "s0 = replicate (length s0) CHR '' ''" using ok(1) by (rule seg_lit_star)
  ultimately have "concat segs = replicate (length s0) CHR '' '' @ ''*/''"
    unfolding segs by simp
  then show ?thesis using cat by (metis append_assoc)
qed

lemma no_separator_no_match:
  assumes k: "6 \<le> k"
    and line: "line = body @ replicate k CHR ''<'' \<or> line = body @ replicate k CHR ''<'' @ [CHR 0x0A]"
    and body: "body = [] \<or> last body \<noteq> CHR ''<''"
    and sep: "\<not> endswith body '' # ''"
  shows "match_current_code_line line = None"
proof (rule ccontr)
  assume "match_current_code_line line \<noteq> None"
  then obtain g where "match_current_code_line line = Some g" by auto
  from current_code_shape[OF this] obtain a j where j: "6 \<le> j"
    and sh: "line = replicate a CHR '' '' @ ''* '' @ g @ '' # '' @ replicate j CHR ''<'' \<or>
      line = replicate a CHR '' '' @ ''* '' @ g @ '' # '' @ replicate j CHR ''<'' @ [CHR 0x0A]"
    by blast
  let ?p = "replicate a CHR '' '' @ ''* '' @ g @ '' # ''"
  have lastp: "?p = [] \<or> last ?p \<noteq> CHR ''<''" by simp
  have kj: "replicate k CHR ''<'' \<noteq> []" "replicate j CHR ''<'' \<noteq> []" using k j by auto
  have l1: "last (body @ replicate k CHR ''<'') = CHR ''<''" using kj(1) by simp
  have l2: "last (?p @ replicate j CHR ''<'') = CHR ''<''"
    using kj(2) by (simp add: last_append)
  have sh': "line = ?p @ replicate j CHR ''<'' \<or> line = (?p @ replicate j CHR ''<'') @ [CHR 0x0A]"
    using sh by (simp only: append_assoc)
  have line': "line = body @ replicate k CHR ''<'' \<or> line = (body @ replicate k CHR ''<'') @ [CHR 0x0A]"
    using line by (simp only: append_assoc)
  have n1: "?p @ replicate j CHR ''<'' \<noteq> []" by simp
  have n2: "body @ replicate k CHR ''<'' \<noteq> []" using kj(1) by simp
  have c1: "last (?p @ replicate j CHR ''<'') \<noteq> CHR 0x0A" by (simp only: l2) simp
  have c2: "last (body @ replicate k CHR ''<'') \<noteq> CHR 0x0A" by (simp only: l1) simp
  have eq: "?p @ replicate j CHR ''<'' = body @ replicate k CHR ''<''"
    by (rule same_content[OF sh' line' n1 c1 n2 c2])
  from trailing_run_unique[OF eq lastp body] have "body = (replicate a CHR '' '' @ ''* '' @ g) @ '' # ''"
    by simp
  then have "endswith body '' # ''" by (simp add: endswith_def)
  with sep show False by simp
qed

text \<open>
  Claim C10. A line is matched as a code-text line only if it consists of spaces, a
  star, a space, the captured text, the separator \<open>" # "\<close> and a run of 6 or more \<open><\<close>
  up to the end of the line. A line that ends in a run of 6 or more \<open><\<close> which the
  separator does not precede is not matched: the inner loop skips it and captures
  nothing for it.
\<close>

theorem code_line_needs_separator:
  "(match_current_code_line line = Some g \<longrightarrow>
      (\<exists>a k. 6 \<le> k \<and>
         (line = replicate a CHR '' '' @ ''* '' @ g @ '' # '' @ replicate k CHR ''<'' \<or>
          line = replicate a CHR '' '' @ ''* '' @ g @ '' # '' @ replicate k CHR ''<'' @ [CHR 0x0A]))) \<and>
   (6 \<le> k \<and>
    (line = body @ replicate k CHR ''<'' \<or> line = body @ replicate k CHR ''<'' @ [CHR 0x0A]) \<and>
    (body = [] \<or> last body \<noteq> CHR ''<'') \<and> \<not> endswith body '' # '' \<longrightarrow>
      match_current_code_line line = None \<and>
      inner_loop filename lineno (line # rest) st = inner_loop filename lineno rest st \<and>
      inner_events filename lineno (line # rest) = inner_events filename lineno rest)"
proof (intro conjI impI)
  assume "match_current_code_line line = Some g"
  then show "\<exists>a k. 6 \<le> k \<and>
         (line = replicate a CHR '' '' @ ''* '' @ g @ '' # '' @ replicate k CHR ''<'' \<or>
          line = replicate a CHR '' '' @ ''* '' @ g @ '' # '' @ replicate k CHR ''<'' @ [CHR 0x0A])"
    by (rule current_code_shape)
next
  assume h: "6 \<le> k \<and>
    (line = body @ replicate k CHR ''<'' \<or> line = body @ replicate k CHR ''<'' @ [CHR 0x0A]) \<and>
    (body = [] \<or> last body \<noteq> CHR ''<'') \<and> \<not> endswith body '' # ''"
  from h have h1: "6 \<le> k" by (rule conjunct1)
  from h have h2: "line = body @ replicate k CHR ''<'' \<or> line = body @ replicate k CHR ''<'' @ [CHR 0x0A]"
    by (rule conjunct2[THEN conjunct1])
  from h have h3: "body = [] \<or> last body \<noteq> CHR ''<''"
    by (rule conjunct2[THEN conjunct2, THEN conjunct1])
  from h have h4: "\<not> endswith body '' # ''"
    by (rule conjunct2[THEN conjunct2, THEN conjunct2])
  have n: "match_current_code_line line = None"
    by (rule no_separator_no_match[OF h1 h2 h3 h4])
  have e: "\<not> match_comment_end line"
  proof
    assume "match_comment_end line"
    from comment_end_shape[OF this] obtain a where
      "line = replicate a CHR '' '' @ ''*/'' \<or> line = replicate a CHR '' '' @ ''*/'' @ [CHR 0x0A]"
      by blast
    then have a': "line = replicate a CHR '' '' @ ''*/'' \<or> line = (replicate a CHR '' '' @ ''*/'') @ [CHR 0x0A]"
      by (simp only: append_assoc)
    from h1 have kn: "replicate k CHR ''<'' \<noteq> []" by auto
    have l1: "last (body @ replicate k CHR ''<'') = CHR ''<''" using kn by simp
    have l2: "last (replicate a CHR '' '' @ ''*/'') = CHR ''/''" by simp
    from h2 have b: "line = body @ replicate k CHR ''<'' \<or> line = (body @ replicate k CHR ''<'') @ [CHR 0x0A]"
      by (simp only: append_assoc)
    have n1: "replicate a CHR '' '' @ ''*/'' \<noteq> []" by simp
    have n2: "body @ replicate k CHR ''<'' \<noteq> []" using kn by simp
    have c1: "last (replicate a CHR '' '' @ ''*/'') \<noteq> CHR 0x0A" by (simp only: l2) simp
    have c2: "last (body @ replicate k CHR ''<'') \<noteq> CHR 0x0A" by (simp only: l1) simp
    have "replicate a CHR '' '' @ ''*/'' = body @ replicate k CHR ''<''"
      by (rule same_content[OF a' b n1 c1 n2 c2])
    then have "last (replicate a CHR '' '' @ ''*/'') = last (body @ replicate k CHR ''<'')"
      by (rule arg_cong)
    then show False by (simp only: l1 l2) simp
  qed
  show "match_current_code_line line = None" by (rule n)
  show "inner_loop filename lineno (line # rest) st = inner_loop filename lineno rest st"
    using n e by simp
  show "inner_events filename lineno (line # rest) = inner_events filename lineno rest"
    using n e by simp
qed

text \<open>
  The theorem at a marked line, and at the same line without the separator.
\<close>

theorem code_line_needs_separator_witness:
  "match_current_code_line '' * x = 1 # <<<<<<<<'' = Some ''x = 1'' \<and>
   (\<exists>a k. 6 \<le> k \<and>
      ('' * x = 1 # <<<<<<<<'' = replicate a CHR '' '' @ ''* '' @ ''x = 1'' @ '' # '' @ replicate k CHR ''<'' \<or>
       '' * x = 1 # <<<<<<<<'' = replicate a CHR '' '' @ ''* '' @ ''x = 1'' @ '' # '' @ replicate k CHR ''<'' @ [CHR 0x0A])) \<and>
   \<not> endswith '' * x = 1'' '' # '' \<and>
   match_current_code_line ('' * x = 1'' @ replicate 6 CHR ''<'') = None \<and>
   inner_loop ''foo.pyx'' 10 [('' * x = 1'' @ replicate 6 CHR ''<''), '' * y # <<<<<<''] scan_init
     = inner_loop ''foo.pyx'' 10 ['' * y # <<<<<<''] scan_init"
proof -
  have m: "match_current_code_line '' * x = 1 # <<<<<<<<'' = Some ''x = 1''"
    by (simp add: match_current_code_line_def current_code_rx_def)
  have s: "\<not> endswith '' * x = 1'' '' # ''" by (simp add: endswith_def)
  have h: "6 \<le> (6::nat) \<and>
    ('' * x = 1'' @ replicate 6 CHR ''<'' = '' * x = 1'' @ replicate 6 CHR ''<'' \<or>
     '' * x = 1'' @ replicate 6 CHR ''<'' = '' * x = 1'' @ replicate 6 CHR ''<'' @ [CHR 0x0A]) \<and>
    ('' * x = 1'' = [] \<or> last '' * x = 1'' \<noteq> CHR ''<'') \<and> \<not> endswith '' * x = 1'' '' # ''"
    using s by simp
  note t = code_line_needs_separator[of "'' * x = 1 # <<<<<<<<''" "''x = 1''" 6
      "'' * x = 1''" "''foo.pyx''" 10 "['' * y # <<<<<<'']" scan_init]
  note u = code_line_needs_separator[of "'' * x = 1'' @ replicate 6 CHR ''<''" "''x = 1''" 6
      "'' * x = 1''" "''foo.pyx''" 10 "['' * y # <<<<<<'']" scan_init]
  from t[THEN conjunct1] m have 1: "\<exists>a k. 6 \<le> k \<and>
      ('' * x = 1 # <<<<<<<<'' = replicate a CHR '' '' @ ''* '' @ ''x = 1'' @ '' # '' @ replicate k CHR ''<'' \<or>
       '' * x = 1 # <<<<<<<<'' = replicate a CHR '' '' @ ''* '' @ ''x = 1'' @ '' # '' @ replicate k CHR ''<'' @ [CHR 0x0A])"
    by (rule mp)
  from u[THEN conjunct2] h have 2: "match_current_code_line ('' * x = 1'' @ replicate 6 CHR ''<'') = None \<and>
      inner_loop ''foo.pyx'' 10 (('' * x = 1'' @ replicate 6 CHR ''<'') # ['' * y # <<<<<<'']) scan_init
        = inner_loop ''foo.pyx'' 10 ['' * y # <<<<<<''] scan_init \<and>
      inner_events ''foo.pyx'' 10 (('' * x = 1'' @ replicate 6 CHR ''<'') # ['' * y # <<<<<<''])
        = inner_events ''foo.pyx'' 10 ['' * y # <<<<<<'']"
    by (rule mp)
  from m 1 s 2 show ?thesis by (intro conjI) (rule m, rule 1, rule s, rule conjunct1[OF 2], rule conjunct1[OF conjunct2[OF 2]])
qed

section \<open>Files that are cited without a marked line\<close>

lemma parse_lines_commit:
  assumes "file_contents env c_file = Some text"
  shows "parse_lines env c_file sourcefile self =
     (case commit env c_file (scan_text text) (excluded_lines (scan_text text))
             (set_iter env (filenames (scan_text text)))
             (case c_files_map self of None \<Rightarrow> Map.empty | Some m \<Rightarrow> m) of
        (Some e, m1) \<Rightarrow> (Inl e, self\<lparr>c_files_map := Some m1\<rparr>)
      | (None, m1) \<Rightarrow>
          (Inr (case m1 sourcefile of
                  None \<Rightarrow> None
                | Some (c, rel, code, ex) \<Rightarrow> Some (rel, code, ex)),
           self\<lparr>c_files_map := Some m1\<rparr>))"
  using assms by (simp add: parse_lines_def scan_text_def Let_def)

text \<open>
  Claim C2 does not hold of the code. Whenever some file is cited by a header that the
  scan reads and no code text is captured for it, \<open>_parse_lines\<close> raises \<open>KeyError\<close> for
  a file of that kind, in line 131: \<open>excluded_lines\<close> has keys for the files with
  captured lines only. No record with empty code lines is ever made.
\<close>

theorem parse_lines_raises_without_code:
  assumes "file_contents env c_file = Some text"
    and "set (set_iter env (filenames (scan_text text))) = set (filenames (scan_text text))"
    and "f \<in> set (filenames (scan_text text))"
    and "code_lines (scan_text text) f = None"
  shows "\<exists>g. fst (parse_lines env c_file sourcefile self) = Inl (KeyError g) \<and>
           g \<in> set (filenames (scan_text text)) \<and> code_lines (scan_text text) g = None"
proof -
  let ?st = "scan_text text"
  have x: "excluded_lines ?st f = None" using assms(4) by (simp add: excluded_lines_def)
  from assms(2,3) have "f \<in> set (set_iter env (filenames ?st))" by simp
  from commit_KeyError[where excl = "excluded_lines ?st" and f = f and env = env and c = c_file
      and st = "?st" and m = "case c_files_map self of None \<Rightarrow> Map.empty | Some m \<Rightarrow> m",
      OF this x] obtain g m' where
    g: "g \<in> set (set_iter env (filenames ?st))" "excluded_lines ?st g = None"
      "commit env c_file ?st (excluded_lines ?st) (set_iter env (filenames ?st))
         (case c_files_map self of None \<Rightarrow> Map.empty | Some m \<Rightarrow> m) = (Some (KeyError g), m')"
    by blast
  have "fst (parse_lines env c_file sourcefile self) = Inl (KeyError g)"
    by (simp add: parse_lines_commit[OF assms(1)] g(3))
  moreover have "code_lines ?st g = None"
    using g(2) by (auto simp: excluded_lines_def split: option.splits)
  ultimately show ?thesis using g(1) assms(2) by auto
qed

text \<open>
  The theorem at the artifact whose only block, for line 3 of \<open>a.pyx\<close>, ends at the
  comment end.
\<close>

theorem parse_lines_raises_without_code_witness:
  "filenames (scan_text art_no_code) = [''a.pyx''] \<and>
   code_lines (scan_text art_no_code) ''a.pyx'' = None \<and>
   dd_get (max_line (scan_text art_no_code)) 0 ''a.pyx'' = 3 \<and>
   fst (parse_lines (ex_env [''/w/m.c'' \<mapsto> art_no_code]) ''/w/m.c'' ''/w/m.so'' plugin_init)
     = Inl (KeyError ''a.pyx'')"
proof -
  let ?E = "ex_env [''/w/m.c'' \<mapsto> art_no_code]"
  have h1: "file_contents ?E ''/w/m.c'' = Some art_no_code" by (simp add: ex_env_def)
  have fs: "filenames (scan_text art_no_code) = [''a.pyx'']"
    by (simp add: model_eval art_no_code_def)
  have h2: "set (set_iter ?E (filenames (scan_text art_no_code))) = set (filenames (scan_text art_no_code))"
    by (simp add: ex_env_def)
  have h3: "''a.pyx'' \<in> set (filenames (scan_text art_no_code))" by (simp add: fs)
  have h4: "code_lines (scan_text art_no_code) ''a.pyx'' = None"
    by (simp add: model_eval art_no_code_def)
  have m: "dd_get (max_line (scan_text art_no_code)) 0 ''a.pyx'' = 3"
    by (simp add: model_eval art_no_code_def)
  from parse_lines_raises_without_code[OF h1 h2 h3 h4, of "''/w/m.so''" plugin_init] fs
  have "fst (parse_lines ?E ''/w/m.c'' ''/w/m.so'' plugin_init) = Inl (KeyError ''a.pyx'')"
    by auto
  with fs h4 m show ?thesis by blast
qed

text \<open>
  Claim C3 does not hold of the code. The two loops end at the end of the input and
  raise nothing, but for the text that ends right after its only header the call of
  \<open>file_tracer\<close> ends in the \<open>KeyError\<close> of line 131.
\<close>

theorem truncated_artifact_raises:
  "fst (file_tracer (ex_env [''/w/m.c'' \<mapsto> art_truncated]) ''m.so'' plugin_init)
     = Inl (KeyError ''a.pyx'')"
  by (simp add: model_eval art_truncated_def)

section \<open>What a parse does to the registry\<close>




section \<open>The last capture wins\<close>

lemma last_capture_append:
  "last_capture (xs @ ys) f n =
     (case last_capture ys f n of Some t \<Rightarrow> Some t | None \<Rightarrow> last_capture xs f n)"
  by (induction xs f n rule: last_capture.induct) (auto split: option.splits)

lemma highest_cited_upper: "Cited f m \<in> set es \<Longrightarrow> m \<le> highest_cited es f"
  by (induction es f rule: highest_cited.induct) (auto simp: le_max_iff_disj)

lemma highest_cited_attained:
  "highest_cited es f = 0 \<or> Cited f (highest_cited es f) \<in> set es"
  by (induction es f rule: highest_cited.induct) (auto simp: max_def)

lemma scan_highest:
  "dd_get (max_line (outer_loop lines scan_init)) 0 f = highest_cited (outer_events lines) f"
  by (simp add: max_line_loops(1)) (simp add: scan_init_def dd_get_def)

lemma scan_last_capture:
  "code_at (outer_loop lines scan_init) f n = last_capture (outer_events lines) f n"
  by (simp add: code_at_loops(1) split: option.splits) (simp add: code_at_def scan_init_def)

text \<open>
  Claim C6. Let the scan read two headers for the same file \<open>f\<close> and line \<open>n\<close> and
  capture a code text after each of them, \<open>t1\<close> first and \<open>t2\<close> later, with no capture
  for \<open>f\<close> and \<open>n\<close> after that. Then the code text held for \<open>f\<close> and \<open>n\<close> at the end of
  the scan is \<open>t2\<close>, and the highest line of \<open>f\<close> is a line number cited for \<open>f\<close> that no
  line number cited for \<open>f\<close> exceeds: the maximum of all of them.
\<close>

theorem last_write_wins:
  assumes "outer_events lines =
      es1 @ [Cited f n, Captured f n t1] @ es2 @ [Cited f n, Captured f n t2] @ es3"
    and "last_capture es3 f n = None"
  shows "code_at (outer_loop lines scan_init) f n = Some t2 \<and>
         Cited f (dd_get (max_line (outer_loop lines scan_init)) 0 f) \<in> set (outer_events lines) \<and>
         (\<forall>m. Cited f m \<in> set (outer_events lines) \<longrightarrow>
              m \<le> dd_get (max_line (outer_loop lines scan_init)) 0 f)"
proof (intro conjI allI impI)
  have "last_capture (outer_events lines) f n = Some t2"
    unfolding assms(1) using assms(2) by (simp add: last_capture_append)
  then show "code_at (outer_loop lines scan_init) f n = Some t2"
    by (simp add: scan_last_capture)
next
  let ?M = "highest_cited (outer_events lines) f"
  have c: "Cited f n \<in> set (outer_events lines)" unfolding assms(1) by simp
  then have "n \<le> ?M" by (rule highest_cited_upper)
  with c highest_cited_attained[of "outer_events lines" f]
  have "Cited f ?M \<in> set (outer_events lines)" by auto
  then show "Cited f (dd_get (max_line (outer_loop lines scan_init)) 0 f) \<in> set (outer_events lines)"
    by (simp add: scan_highest)
next
  fix m assume "Cited f m \<in> set (outer_events lines)"
  then show "m \<le> dd_get (max_line (outer_loop lines scan_init)) 0 f"
    by (simp add: scan_highest highest_cited_upper)
qed

text \<open>
  The theorem at the artifact that cites line 10 of \<open>foo.pyx\<close> twice, with the texts
  \<open>x = 1\<close> and \<open>y = 2\<close>.
\<close>

theorem last_write_wins_witness:
  "outer_events (file_lines art_duplicate) =
     [] @ [Cited ''foo.pyx'' 10, Captured ''foo.pyx'' 10 ''x = 1''] @ []
        @ [Cited ''foo.pyx'' 10, Captured ''foo.pyx'' 10 ''y = 2''] @ [] \<and>
   code_at (outer_loop (file_lines art_duplicate) scan_init) ''foo.pyx'' 10 = Some ''y = 2'' \<and>
   dd_get (max_line (outer_loop (file_lines art_duplicate) scan_init)) 0 ''foo.pyx'' = 10 \<and>
   Cited ''foo.pyx'' (dd_get (max_line (outer_loop (file_lines art_duplicate) scan_init)) 0 ''foo.pyx'')
     \<in> set (outer_events (file_lines art_duplicate))"
proof -
  have e: "outer_events (file_lines art_duplicate) =
     [] @ [Cited ''foo.pyx'' 10, Captured ''foo.pyx'' 10 ''x = 1''] @ []
        @ [Cited ''foo.pyx'' 10, Captured ''foo.pyx'' 10 ''y = 2''] @ []"
    by (simp add: model_eval art_duplicate_def)
  have n: "last_capture [] ''foo.pyx'' 10 = None" by simp
  have m: "dd_get (max_line (outer_loop (file_lines art_duplicate) scan_init)) 0 ''foo.pyx'' = 10"
    by (simp add: model_eval art_duplicate_def)
  note t = last_write_wins[OF e n]
  show ?thesis
    by (intro conjI) (rule e, rule t[THEN conjunct1], rule m, rule t[THEN conjunct2, THEN conjunct1])
qed

section \<open>A header followed by its code-text line\<close>

lemma parse_lines_entry:
  assumes "parse_lines env c_file sourcefile self = (Inr r, self')"
    and "file_contents env c_file = Some text"
    and "set (set_iter env (filenames (scan_text text))) = set (filenames (scan_text text))"
    and "key \<in> abspath env ` set (filenames (scan_text text))"
  shows "\<exists>g lines ex. g \<in> set (filenames (scan_text text)) \<and> abspath env g = key \<and>
           code_lines (scan_text text) g = Some lines \<and>
           excluded_lines (scan_text text) g = Some ex \<and>
           registry_lookup self' key = Some (c_file, g, Some lines, Some ex)"
proof -
  let ?st = "scan_text text"
  let ?m0 = "case c_files_map self of None \<Rightarrow> Map.empty | Some m \<Rightarrow> m"
  from parse_lines_Inr[OF assms(1,2)] obtain m' where
    c: "commit env c_file ?st (excluded_lines ?st) (set_iter env (filenames ?st)) ?m0 = (None, m')"
    and s: "self' = self\<lparr>c_files_map := Some m'\<rparr>" by blast
  have l': "registry_lookup self' k = m' k" for k by (simp add: s registry_lookup_def)
  have inv: "scan_inv ?st" unfolding scan_text_def by (rule scan_inv_scan)
  note ok = commit_ok[OF c, unfolded assms(3)]
  from ok assms(4) obtain g where g: "g \<in> set (filenames ?st)" "abspath env g = key"
    "m' key = Some (c_file, g, Some (dd_get (code_lines ?st) Map.empty g), excluded_lines ?st g)"
    by blast
  from ok g(1) obtain ex where ex: "excluded_lines ?st g = Some ex" by auto
  from excluded_lines_Some[OF ex inv] obtain lines where
    "code_lines ?st g = Some lines" "dd_get (code_lines ?st) Map.empty g = lines" by blast
  with g ex l' show ?thesis by auto
qed

lemma roundtrip_code_line:
  assumes "code = '' * x = 1 # <<<<<<<<'' \<or> code = '' * x = 1 # <<<<<<<<'' @ [CHR 0x0A]"
  shows "match_current_code_line code = Some ''x = 1''"
  using assms by (elim disjE) (simp_all add: match_current_code_line_def current_code_rx_def)

lemma rstrip_x: "rstrip ''x = 1'' = ''x = 1''"
  by (simp add: rstrip_def is_space_def)

lemma scan_roundtrip:
  assumes "lines = pre @ [header, code] @ post"
    and "outer_pending pre = None"
    and "match_source_path_line header = Some (f, ds)"
    and "match_current_code_line code = Some g"
    and "last_capture (outer_events post) f (int_of_digits ds) = None"
  shows "code_at (outer_loop lines st) f (int_of_digits ds) = Some (rstrip g)"
proof -
  let ?n = "int_of_digits ds"
  let ?st1 = "outer_loop pre st"
  let ?st2 = "?st1\<lparr>filenames := set_add f (filenames ?st1),
                    max_line := (max_line ?st1)(f \<mapsto> max (dd_get (max_line ?st1) 0 f) ?n)\<rparr>"
  let ?st3 = "?st2\<lparr>code_lines := (code_lines ?st2)(f \<mapsto>
                   (dd_get (code_lines ?st2) Map.empty f)(?n \<mapsto> rstrip g))\<rparr>"
  have "outer_loop lines st = outer_loop ([header, code] @ post) ?st1"
    unfolding assms(1) using assms(2) by (simp add: loops_append(1))
  also have "\<dots> = outer_loop post ?st3"
    using assms(3,4) by (simp add: Let_def)
  finally have "outer_loop lines st = outer_loop post ?st3" .
  then have "code_at (outer_loop lines st) f ?n = code_at ?st3 f ?n"
    using assms(5) by (simp add: code_at_loops(1))
  also have "\<dots> = Some (rstrip g)" by (simp add: code_at_def)
  finally show ?thesis .
qed

text \<open>
  Claim C5, as amended. Let the artifact contain a header for line 10 of \<open>foo.pyx\<close>
  that the outer loop reads (no earlier header is still waiting for its code text),
  followed at once by the line \<open> * x = 1 # <<<<<<<<\<close>; let no later capture be made for
  line 10 of \<open>foo.pyx\<close>, and let no other cited file have the absolute path of
  \<open>foo.pyx\<close>. If the parse returns normally, the reporter for \<open>foo.pyx\<close> exists, its code
  text for line 10 is \<open>x = 1\<close>, and 10 is one of its statements.
\<close>

theorem roundtrip_foo_10:
  assumes "parse_lines env c_file sourcefile self = (Inr r, self')"
    and "file_contents env c_file = Some text"
    and "set (set_iter env (filenames (scan_text text))) = set (filenames (scan_text text))"
    and "file_lines text = pre @ [header, code] @ post"
    and "outer_pending pre = None"
    and "match_source_path_line header = Some (''foo.pyx'', ds)"
    and "int_of_digits ds = 10"
    and "code = '' * x = 1 # <<<<<<<<'' \<or> code = '' * x = 1 # <<<<<<<<'' @ [CHR 0x0A]"
    and "last_capture (outer_events post) ''foo.pyx'' 10 = None"
    and "\<forall>g\<in>set (filenames (scan_text text)).
           abspath env g = abspath env ''foo.pyx'' \<longrightarrow> g = ''foo.pyx''"
  shows "\<exists>rep. file_reporter env ''foo.pyx'' self' = Some rep \<and>
           r_code rep 10 = Some ''x = 1'' \<and> 10 \<in> statements rep"
proof -
  let ?st = "scan_text text"
  have m: "match_current_code_line code = Some ''x = 1''"
    by (rule roundtrip_code_line[OF assms(8)])
  have "code_at ?st ''foo.pyx'' (int_of_digits ds) = Some (rstrip ''x = 1'')"
    unfolding scan_text_def
    by (rule scan_roundtrip[OF assms(4,5,6) m]) (simp add: assms(7,9))
  then have ca: "code_at ?st ''foo.pyx'' 10 = Some ''x = 1''"
    by (simp only: assms(7) rstrip_x)
  then obtain lines where l: "code_lines ?st ''foo.pyx'' = Some lines" "lines 10 = Some ''x = 1''"
    by (auto simp: code_at_def split: option.splits)
  have inv: "scan_inv ?st" unfolding scan_text_def by (rule scan_inv_scan)
  then have "''foo.pyx'' \<in> set (filenames ?st)"
    using l(1) unfolding scan_inv_def by blast
  then have k: "abspath env ''foo.pyx'' \<in> abspath env ` set (filenames ?st)" by (rule imageI)
  from parse_lines_entry[OF assms(1,2,3) k]
  obtain g lines' ex where g: "g \<in> set (filenames ?st)" "abspath env g = abspath env ''foo.pyx''"
    "code_lines ?st g = Some lines'"
    "registry_lookup self' (abspath env ''foo.pyx'') = Some (c_file, g, Some lines', Some ex)"
    by blast
  from assms(10) g(1,2) have "g = ''foo.pyx''" by blast
  with g(3) l(1) have "lines' = lines" by simp
  with g(4) have e: "registry_lookup self' (abspath env ''foo.pyx'')
      = Some (c_file, g, Some lines, Some ex)" by simp
  have x: "lower (snd (splitext ''foo.pyx'')) \<in> set [''.pyx'', ''.pxi'', ''.pxd'']"
    by (simp add: splitext_def lower_def lower_char_def)
  from e obtain mp where mp: "c_files_map self' = Some mp"
    "mp (abspath env ''foo.pyx'') = Some (c_file, g, Some lines, Some ex)"
    by (auto simp: registry_lookup_def split: option.splits)
  then have ne: "mp \<noteq> Map.empty" by auto
  have "file_reporter env ''foo.pyx'' self' =
      Some \<lparr>r_c_file = c_file, r_source_file = abspath env ''foo.pyx'', r_name = g,
            r_code = lines, r_excluded = Some ex\<rparr>"
    unfolding file_reporter_def using x mp ne by (simp add: Let_def domI)
  then show ?thesis using l(2) by (simp add: statements_def domI)
qed

text \<open>
  The theorem at the artifact that holds the header and the line and nothing else.
\<close>

theorem roundtrip_foo_10_witness:
  \<open>fst (parse_lines (ex_env [''/w/m.c'' \<mapsto> art_roundtrip]) ''/w/m.c'' ''/w/m.so'' plugin_init) = Inr None \<and>
   file_lines art_roundtrip =
     [''/* Generated by Cython 0.22 */\<newline>''] @ [''/* "foo.pyx":10\<newline>'', '' * x = 1 # <<<<<<<<\<newline>''] @ [] \<and>
   outer_pending [''/* Generated by Cython 0.22 */\<newline>''] = None \<and>
   match_source_path_line ''/* "foo.pyx":10\<newline>'' = Some (''foo.pyx'', ''10'') \<and>
   int_of_digits ''10'' = 10 \<and>
   (\<exists>rep. file_reporter (ex_env [''/w/m.c'' \<mapsto> art_roundtrip]) ''foo.pyx''
            (snd (parse_lines (ex_env [''/w/m.c'' \<mapsto> art_roundtrip]) ''/w/m.c'' ''/w/m.so'' plugin_init))
          = Some rep \<and>
      r_code rep 10 = Some ''x = 1'' \<and> 10 \<in> statements rep)\<close>
proof -
  let ?E = "ex_env [''/w/m.c'' \<mapsto> art_roundtrip]"
  let ?P = "snd (parse_lines ?E ''/w/m.c'' ''/w/m.so'' plugin_init)"
  have r: "fst (parse_lines ?E ''/w/m.c'' ''/w/m.so'' plugin_init) = Inr None"
    by (simp add: model_eval art_roundtrip_def)
  then have h1: "parse_lines ?E ''/w/m.c'' ''/w/m.so'' plugin_init = (Inr None, ?P)"
    by (simp add: prod_eq_iff)
  have h2: "file_contents ?E ''/w/m.c'' = Some art_roundtrip" by (simp add: ex_env_def)
  have fs: "filenames (scan_text art_roundtrip) = [''foo.pyx'']"
    by (simp add: model_eval art_roundtrip_def)
  have h3: "set (set_iter ?E (filenames (scan_text art_roundtrip))) = set (filenames (scan_text art_roundtrip))"
    by (simp add: ex_env_def)
  have h4: \<open>file_lines art_roundtrip =
     [''/* Generated by Cython 0.22 */\<newline>''] @ [''/* "foo.pyx":10\<newline>'', '' * x = 1 # <<<<<<<<\<newline>''] @ []\<close>
    by (simp add: art_roundtrip_def)
  have h5: "outer_pending [''/* Generated by Cython 0.22 */\<newline>''] = None"
    by (simp add: model_eval)
  have h6: \<open>match_source_path_line ''/* "foo.pyx":10\<newline>'' = Some (''foo.pyx'', ''10'')\<close>
    by (simp add: model_eval)
  have h7: "int_of_digits ''10'' = 10" by (simp add: int_of_digits_def digit_val_def)
  have h8: "'' * x = 1 # <<<<<<<<\<newline>'' = '' * x = 1 # <<<<<<<<'' \<or>
            '' * x = 1 # <<<<<<<<\<newline>'' = '' * x = 1 # <<<<<<<<'' @ [CHR 0x0A]"
    by simp
  have h9: "last_capture (outer_events []) ''foo.pyx'' 10 = None" by simp
  have h10: "\<forall>g\<in>set (filenames (scan_text art_roundtrip)).
      abspath ?E g = abspath ?E ''foo.pyx'' \<longrightarrow> g = ''foo.pyx''"
    by (simp add: fs)
  note t = roundtrip_foo_10[OF h1 h2 h3 h4 h5 h6 h7 h8 h9 h10]
  show ?thesis by (intro conjI) (rule r, rule h4, rule h5, rule h6, rule h7, rule t)
qed

text \<open>
  The artifact below contains the header followed at once by the line, and then cites
  line 10 of \<open>foo.pyx\<close> again with another text: the code text reported for line 10 is
  \<open>y = 2\<close>.
\<close>

theorem roundtrip_overwritten_counterexample:
  \<open>take 2 (drop 1 (file_lines art_duplicate)) = [''/* "foo.pyx":10\<newline>'', '' * x = 1 # <<<<<<<<\<newline>''] \<and>
   map_option (\<lambda>rep. r_code rep 10)
     (file_reporter (ex_env [''/w/m.c'' \<mapsto> art_duplicate]) ''foo.pyx''
        (snd (file_tracer (ex_env [''/w/m.c'' \<mapsto> art_duplicate]) ''m.so'' plugin_init)))
     = Some (Some ''y = 2'')\<close>
  by (simp add: model_eval art_duplicate_def)

end
